theory Spec2Isabelle
  imports Complex_Main
begin

section \<open>Neuromorphic learning network: a shallow embedding of claude\_pyspice\_net.py\<close>

text \<open>
  The orchestrator of \<^verbatim>\<open>src/claude_pyspice_net.py\<close> is embedded function by function.
  Python floats are read as real numbers, Python integers as \<^typ>\<open>int\<close> or \<^typ>\<open>nat\<close>,
  numpy arrays as lists (a matrix is a list of rows), and every exception the source can
  raise is a value of the type \<open>error\<close> on the left of a sum.
\<close>

datatype error = ValueError | IndexError | AttributeError | OverflowError

subsection \<open>Loops and the random source\<close>

text \<open>
  A Python \<^verbatim>\<open>for\<close> loop whose body may raise: the state is threaded through the
  iterations and the first exception ends the loop.
\<close>

fun for_loop :: "('a \<Rightarrow> 's \<Rightarrow> error + 's) \<Rightarrow> 'a list \<Rightarrow> 's \<Rightarrow> error + 's" where
  "for_loop body [] s = Inr s"
| "for_loop body (x # xs) s =
     (case body x s of Inl e \<Rightarrow> Inl e | Inr s' \<Rightarrow> for_loop body xs s')"

text \<open>
  numpy's global random state is not part of the repository. It is represented by the
  outcomes it is going to produce: a stream of raw integers, consumed by
  \<^verbatim>\<open>np.random.choice\<close>, and a stream of raw samples, consumed by
  \<^verbatim>\<open>rand\<close>, \<^verbatim>\<open>uniform\<close> and \<^verbatim>\<open>normal\<close>. Drawing a value
  drops the head of the stream.
\<close>

record rng =
  raw_ints :: "nat \<Rightarrow> nat"
  raw_floats :: "nat \<Rightarrow> real"

text \<open>
  \<^verbatim>\<open>np.random.choice(a, size, replace=False)\<close>: \<open>size\<close> distinct members of
  \<open>range(a)\<close>, each taken out of the remaining pool at a position the random source
  picks; asking for more than the population raises ValueError.
\<close>

fun sample_pool :: "nat list \<Rightarrow> nat \<Rightarrow> (nat \<Rightarrow> nat) \<Rightarrow> nat list \<times> (nat \<Rightarrow> nat)" where
  "sample_pool pool 0 rs = ([], rs)"
| "sample_pool pool (Suc k) rs =
     (if pool = [] then ([], rs)
      else
        (let j = rs 0 mod length pool;
             (rest, rs') = sample_pool (take j pool @ drop (Suc j) pool) k (\<lambda>n. rs (Suc n))
         in (pool ! j # rest, rs')))"

definition choice :: "nat \<Rightarrow> nat \<Rightarrow> rng \<Rightarrow> error + (nat list \<times> rng)" where
  "choice a sz r =
     (if a < sz then Inl ValueError
      else
        (let (idx, rs') = sample_pool [0..<a] sz (raw_ints r)
         in Inr (idx, r\<lparr>raw_ints := rs'\<rparr>)))"

subsection \<open>Topology generation\<close>

datatype cell_type =
  CELL_TYPE_SRAM | CELL_TYPE_DRAM_REFRESHED | CELL_TYPE_DRAM_LEAKY
  | CELL_TYPE_DRAM_NEIGHBOR_CTRL_LEAKY

type_synonym cell_matrix = "cell_type list list"

definition get_cell :: "cell_matrix \<Rightarrow> nat \<Rightarrow> nat \<Rightarrow> error + cell_type" where
  "get_cell m row col =
     (if row < length m \<and> col < length (m ! row) then Inr (m ! row ! col) else Inl IndexError)"

definition set_cell :: "cell_type \<Rightarrow> nat \<times> nat \<Rightarrow> cell_matrix \<Rightarrow> error + cell_matrix" where
  "set_cell v pos m =
     (case pos of (row, col) \<Rightarrow>
        if row < length m \<and> col < length (m ! row)
        then Inr (m[row := (m ! row)[col := v]]) else Inl IndexError)"

definition set_unless_sram :: "cell_type \<Rightarrow> nat \<times> nat \<Rightarrow> cell_matrix \<Rightarrow> error + cell_matrix" where
  "set_unless_sram v pos m =
     (case get_cell m (fst pos) (snd pos) of
        Inl e \<Rightarrow> Inl e
      | Inr c \<Rightarrow> if c \<noteq> CELL_TYPE_SRAM then set_cell v pos m else Inr m)"

definition neighbor_step_ih ::
  "nat \<Rightarrow> nat \<Rightarrow> nat \<Rightarrow> cell_matrix \<times> rng \<Rightarrow> error + (cell_matrix \<times> rng)" where
  "neighbor_step_ih num_inputs num_hidden h st =
     (case st of (m, r) \<Rightarrow>
        (let neighbors = filter (\<lambda>n. n \<noteq> h) [0..<num_hidden] in
         if neighbors \<noteq> [] then
           (case choice num_inputs (min 2 (length neighbors)) r of
              Inl e \<Rightarrow> Inl e
            | Inr (input_idx, r') \<Rightarrow>
                (case for_loop (\<lambda>i. set_unless_sram CELL_TYPE_DRAM_NEIGHBOR_CTRL_LEAKY (i, h))
                        input_idx m of
                   Inl e \<Rightarrow> Inl e
                 | Inr m' \<Rightarrow> Inr (m', r')))
         else Inr (m, r)))"

definition neighbor_step_ho ::
  "nat \<Rightarrow> nat \<Rightarrow> cell_matrix \<times> rng \<Rightarrow> error + (cell_matrix \<times> rng)" where
  "neighbor_step_ho num_hidden o_idx st =
     (case st of (m, r) \<Rightarrow>
        (case choice num_hidden (min 2 num_hidden) r of
           Inl e \<Rightarrow> Inl e
         | Inr (hidden_idx, r') \<Rightarrow>
             (case for_loop (\<lambda>h. set_unless_sram CELL_TYPE_DRAM_NEIGHBOR_CTRL_LEAKY (h, o_idx))
                     hidden_idx m of
                Inl e \<Rightarrow> Inl e
              | Inr m' \<Rightarrow> Inr (m', r'))))"

definition initialize_network_architecture ::
  "nat \<Rightarrow> nat \<Rightarrow> nat \<Rightarrow> rng \<Rightarrow> error + (cell_matrix \<times> cell_matrix \<times> rng)" where
  "initialize_network_architecture num_inputs num_hidden num_outputs r0 =
     (let ih0 = replicate num_inputs (replicate num_hidden CELL_TYPE_DRAM_LEAKY) in
      case for_loop (\<lambda>i. set_cell CELL_TYPE_SRAM (i, i)) [0..<min num_inputs num_hidden] ih0 of
        Inl e \<Rightarrow> Inl e
      | Inr ih1 \<Rightarrow>
      (let num_refreshed = max 2 (num_hidden div 4) in
       case choice (num_inputs * num_hidden) num_refreshed r0 of
         Inl e \<Rightarrow> Inl e
       | Inr (idx, r1) \<Rightarrow>
       (case for_loop (\<lambda>i. set_unless_sram CELL_TYPE_DRAM_REFRESHED
                               (i div num_hidden, i mod num_hidden)) idx ih1 of
          Inl e \<Rightarrow> Inl e
        | Inr ih2 \<Rightarrow>
        (case for_loop (neighbor_step_ih num_inputs num_hidden) [0..<num_hidden] (ih2, r1) of
           Inl e \<Rightarrow> Inl e
         | Inr (cell_types_input_hidden, r2) \<Rightarrow>
         (let ho0 = replicate num_hidden (replicate num_outputs CELL_TYPE_DRAM_LEAKY) in
          case for_loop (\<lambda>i. set_cell CELL_TYPE_SRAM (i, i))
                 [0..<min num_hidden num_outputs] ho0 of
            Inl e \<Rightarrow> Inl e
          | Inr ho1 \<Rightarrow>
          (let num_refreshed = max 2 (num_outputs div 2) in
           case choice (num_hidden * num_outputs) num_refreshed r2 of
             Inl e \<Rightarrow> Inl e
           | Inr (idx, r3) \<Rightarrow>
           (case for_loop (\<lambda>i. set_unless_sram CELL_TYPE_DRAM_REFRESHED
                                   (i div num_outputs, i mod num_outputs)) idx ho1 of
              Inl e \<Rightarrow> Inl e
            | Inr ho2 \<Rightarrow>
            (case for_loop (neighbor_step_ho num_hidden) [0..<num_outputs] (ho2, r3) of
               Inl e \<Rightarrow> Inl e
             | Inr (cell_types_hidden_output, r4) \<Rightarrow>
                 Inr (cell_types_input_hidden, cell_types_hidden_output, r4)))))))))"

definition count_sram :: "cell_matrix \<Rightarrow> nat" where
  "count_sram m = sum_list (map (\<lambda>row. length (filter (\<lambda>c. c = CELL_TYPE_SRAM) row)) m)"

definition sram_diag_upto :: "nat \<Rightarrow> nat \<Rightarrow> nat \<Rightarrow> cell_matrix \<Rightarrow> bool" where
  "sram_diag_upto k d1 d2 m \<longleftrightarrow>
     length m = d1 \<and> (\<forall>row<d1. length (m ! row) = d2) \<and>
     (\<forall>row<d1. \<forall>col<d2. (m ! row ! col = CELL_TYPE_SRAM) = (row = col \<and> row < k))"

subsection \<open>Circuit construction\<close>

text \<open>
  PySpice is not part of the repository. Its \<^verbatim>\<open>Circuit\<close> is represented by what the
  builder puts into it: the title, the raw option lines, the elements in the order they
  are added, and the device models. An element keeps the name and the nodes it is given
  and its value in base units (farad, ohm, volt). PySpice's \<^verbatim>\<open>MOSFET\<close> takes its
  nodes in the SPICE order drain, gate, source, bulk; the gate is the control terminal.
\<close>

datatype element =
    Capacitor string string string real
  | Resistor string string string real
  | VoltageSource string string string real
  | MOSFET string string string string string string
  | PieceWiseLinearVoltageSource string string string "(real \<times> real) list"

record mosfet_model =
  model_name :: string
  model_type :: string
  LEVEL :: nat
  VTO :: real
  KP :: real
  GAMMA :: real
  LAMBDA :: real
  PHI :: real
  TOX :: real

record spice_circuit =
  title :: string
  raw_spice :: "string list"
  elements :: "element list"
  models :: "mosfet_model list"

definition gnd :: string where
  "gnd = ''0''"

definition add_elements :: "element list \<Rightarrow> spice_circuit \<Rightarrow> spice_circuit" where
  "add_elements es c = c\<lparr>elements := elements c @ es\<rparr>"

definition add_model :: "mosfet_model \<Rightarrow> spice_circuit \<Rightarrow> spice_circuit" where
  "add_model m c = c\<lparr>models := models c @ [m]\<rparr>"

definition nmos :: "string \<Rightarrow> real \<Rightarrow> real \<Rightarrow> mosfet_model" where
  "nmos nm vto kp =
     \<lparr>model_name = nm, model_type = ''NMOS'', LEVEL = 1, VTO = vto, KP = kp,
      GAMMA = 0.1, LAMBDA = 0.01, PHI = 0.6, TOX = 10 / 10 ^ 9\<rparr>"

text \<open>The decimal rendering of a number inside an f-string.\<close>

fun str_nat :: "nat \<Rightarrow> string" where
  "str_nat n =
     (if n < 10 then [''0123456789'' ! n]
      else str_nat (n div 10) @ [''0123456789'' ! (n mod 10)])"

declare str_nat.simps [simp del]

definition input_node :: "nat \<Rightarrow> string" where
  "input_node i = ''input_'' @ str_nat i"

definition hidden_node :: "nat \<Rightarrow> string" where
  "hidden_node h = ''hidden_'' @ str_nat h"

definition output_node :: "nat \<Rightarrow> string" where
  "output_node k = ''output_'' @ str_nat k"

definition error_node :: "nat \<Rightarrow> string" where
  "error_node k = ''error_'' @ str_nat k"

text \<open>The suffix \<open>_a_b\<close> shared by the names of one synapse's parts.\<close>

definition idx2 :: "nat \<Rightarrow> nat \<Rightarrow> string" where
  "idx2 a b = ''_'' @ str_nat a @ ''_'' @ str_nat b"

definition syn_node :: "string \<Rightarrow> nat \<Rightarrow> nat \<Rightarrow> string \<Rightarrow> string" where
  "syn_node layer a b kind = layer @ ''_syn'' @ idx2 a b @ kind"

definition cells_table :: "string \<Rightarrow> string \<Rightarrow> nat \<Rightarrow> nat \<Rightarrow> string list list" where
  "cells_table layer kind rows cols =
     map (\<lambda>a. map (\<lambda>b. syn_node layer a b kind) [0..<cols]) [0..<rows]"

text \<open>
  Random draws. \<^verbatim>\<open>np.random.rand()\<close> is the next raw sample,
  \<^verbatim>\<open>np.random.uniform(low, high)\<close> scales it into the interval, and
  \<^verbatim>\<open>np.random.normal(loc, scale)\<close> scales the next raw deviate.
\<close>

definition next_float :: "rng \<Rightarrow> real \<times> rng" where
  "next_float r = (raw_floats r 0, r\<lparr>raw_floats := (\<lambda>n. raw_floats r (Suc n))\<rparr>)"

definition random_rand :: "rng \<Rightarrow> real \<times> rng" where
  "random_rand r = next_float r"

definition random_uniform :: "real \<Rightarrow> real \<Rightarrow> rng \<Rightarrow> real \<times> rng" where
  "random_uniform low high r = (case next_float r of (u, r') \<Rightarrow> (low + (high - low) * u, r'))"

definition random_normal :: "real \<Rightarrow> real \<Rightarrow> rng \<Rightarrow> real \<times> rng" where
  "random_normal loc scale r = (case next_float r of (z, r') \<Rightarrow> (loc + scale * z, r'))"

definition randomize_rc :: "real \<Rightarrow> real \<Rightarrow> real \<Rightarrow> real \<Rightarrow> rng \<Rightarrow> (real \<times> real \<times> real) \<times> rng" where
  "randomize_rc R_nom C_nom VTO_nom temp_C r0 =
     (let T_kelvin = 273.15 + temp_C;
          (z1, r1) = random_normal 0 0.1 r0;
          R_val = R_nom * (1 + 0.002 * (T_kelvin - 298)) * exp z1;
          (u, r2) = random_rand r1;
          C_val = C_nom * (0.95 + 0.1 * u);
          (z2, r3) = random_normal 0 0.01 r2;
          VTO_val = VTO_nom + z2
      in ((R_val, C_val, VTO_val), r3))"

text \<open>
  The parts of one synapse that do not depend on the layer pair: the two storage
  capacitors and their small companions, the synapse's own MOSFET model, the forward,
  feedback and read-out MOSFETs, and the leakage chosen by the cell type. \<open>layer\<close> is
  \<open>ih\<close> or \<open>ho\<close>; \<open>ctrl_drain\<close> is the drain the source gives the neighbour-control
  MOSFET (\<open>vdd\<close> between input and hidden, the fast node between hidden and output).
\<close>

definition synapse_elements ::
  "string \<Rightarrow> nat \<Rightarrow> nat \<Rightarrow> cell_type \<Rightarrow> string \<Rightarrow> string \<Rightarrow> string \<Rightarrow> string \<Rightarrow> string \<Rightarrow>
   real \<Rightarrow> real \<Rightarrow> real \<Rightarrow> real \<Rightarrow> element list" where
  "synapse_elements layer a b cell_type fast_node slow_node pre_node post_node ctrl_drain
     r_f_nom c_f r_s_nom c_s =
     [Capacitor (''ac_'' @ layer @ ''_fast'' @ idx2 a b) fast_node gnd c_f,
      Capacitor (''ac_'' @ layer @ ''_slow'' @ idx2 a b) slow_node gnd c_s,
      Capacitor (''ac_'' @ layer @ ''_fast_gnd'' @ idx2 a b) fast_node gnd (1 / 10 ^ 15),
      Capacitor (''ac_'' @ layer @ ''_slow_gnd'' @ idx2 a b) slow_node gnd (1 / 10 ^ 15),
      MOSFET (layer @ ''_mf_pre'' @ idx2 a b) ''vdd'' pre_node fast_node gnd
        (layer @ ''_nmos'' @ idx2 a b),
      MOSFET (layer @ ''_mf_post'' @ idx2 a b) ''vdd'' post_node fast_node gnd ''nmos_learn'',
      MOSFET (layer @ ''_mf_out'' @ idx2 a b) ''vdd'' fast_node post_node gnd ''nmos_syn'']
     @ (if cell_type = CELL_TYPE_SRAM \<or> cell_type = CELL_TYPE_DRAM_REFRESHED then
          (let effective_r_f = (if cell_type = CELL_TYPE_SRAM then 10 ^ 9 else r_f_nom * 5);
               effective_r_s = (if cell_type = CELL_TYPE_SRAM then 10 ^ 9 else r_s_nom * 5)
           in [Resistor (layer @ ''_r_fast'' @ idx2 a b) fast_node gnd effective_r_f,
               Resistor (layer @ ''_r_slow'' @ idx2 a b) slow_node gnd effective_r_s])
        else
          [Resistor (layer @ ''_r_fast'' @ idx2 a b) fast_node gnd r_f_nom,
           Resistor (layer @ ''_r_slow'' @ idx2 a b) slow_node gnd r_s_nom,
           Resistor (layer @ ''_leak'' @ idx2 a b) fast_node gnd (r_f_nom * 5)]
          @ (if cell_type = CELL_TYPE_DRAM_NEIGHBOR_CTRL_LEAKY then
               [MOSFET (layer @ ''_leak_ctrl'' @ idx2 a b) ctrl_drain fast_node
                  ''v_neighbor_modulate'' gnd ''nmos_leak_ctrl'']
             else []))"

text \<open>The body of the loop over the input-to-hidden synapses \<open>(i, h)\<close>.\<close>

definition ih_synapse ::
  "nat \<Rightarrow> nat \<Rightarrow> nat \<Rightarrow> cell_matrix \<Rightarrow> nat \<times> nat \<Rightarrow> spice_circuit \<times> rng \<Rightarrow>
   error + (spice_circuit \<times> rng)" where
  "ih_synapse num_inputs num_hidden num_outputs cell_types_input_hidden pos st =
     (case (pos, st) of ((i, h), (c, r0)) \<Rightarrow>
      case get_cell cell_types_input_hidden i h of
        Inl e \<Rightarrow> Inl e
      | Inr cell_type \<Rightarrow>
        (let fast_node = cells_table ''ih'' ''_fast'' num_inputs num_hidden ! i ! h;
             slow_node = cells_table ''ih'' ''_slow'' num_inputs num_hidden ! i ! h;
             pre_node = map input_node [0..<num_inputs] ! i;
             post_node = map hidden_node [0..<num_hidden] ! h;
             ((r_f_nom, c_f, vth_f), r1) = randomize_rc (10 ^ 6) (100 / 10 ^ 15) 0.5 37 r0;
             ((r_s_nom, c_s, vth_s), r2) = randomize_rc (10 ^ 7) (500 / 10 ^ 15) 0.5 37 r1;
             c1 = add_model (nmos (''ih_nmos'' @ idx2 i h) vth_f (50 / 10 ^ 6)) c;
             c2 = add_elements
                    (synapse_elements ''ih'' i h cell_type fast_node slow_node pre_node post_node
                       ''vdd'' r_f_nom c_f r_s_nom c_s) c1;
             c3 = add_elements
                    (map (\<lambda>k. MOSFET (''ih_err'' @ idx2 i h @ ''_'' @ str_nat k) ''vdd''
                                 (map error_node [0..<num_outputs] ! k) fast_node gnd ''nmos_learn'')
                       (filter (\<lambda>k. k = h mod num_outputs) [0..<num_outputs])) c2
         in Inr (c3, r2)))"

text \<open>The body of the loop over the hidden-to-output synapses \<open>(h, o)\<close>.\<close>

definition ho_synapse ::
  "nat \<Rightarrow> nat \<Rightarrow> cell_matrix \<Rightarrow> nat \<times> nat \<Rightarrow> spice_circuit \<times> rng \<Rightarrow>
   error + (spice_circuit \<times> rng)" where
  "ho_synapse num_hidden num_outputs cell_types_hidden_output pos st =
     (case (pos, st) of ((h, k), (c, r0)) \<Rightarrow>
      case get_cell cell_types_hidden_output h k of
        Inl e \<Rightarrow> Inl e
      | Inr cell_type \<Rightarrow>
        (let fast_node = cells_table ''ho'' ''_fast'' num_hidden num_outputs ! h ! k;
             slow_node = cells_table ''ho'' ''_slow'' num_hidden num_outputs ! h ! k;
             pre_node = map hidden_node [0..<num_hidden] ! h;
             post_node = map output_node [0..<num_outputs] ! k;
             ((r_f_nom, c_f, vth_f), r1) = randomize_rc (10 ^ 6) (100 / 10 ^ 15) 0.5 37 r0;
             ((r_s_nom, c_s, vth_s), r2) = randomize_rc (10 ^ 7) (500 / 10 ^ 15) 0.5 37 r1;
             c1 = add_model (nmos (''ho_nmos'' @ idx2 h k) vth_f (50 / 10 ^ 6)) c;
             c2 = add_elements
                    (synapse_elements ''ho'' h k cell_type fast_node slow_node pre_node post_node
                       fast_node r_f_nom c_f r_s_nom c_s) c1;
             c3 = add_elements
                    [MOSFET (''ho_err'' @ idx2 h k) ''vdd''
                       (map error_node [0..<num_outputs] ! k) fast_node gnd ''nmos_learn''] c2
         in Inr (c3, r2)))"

text \<open>What \<^verbatim>\<open>build_circuit_for_learning\<close> returns.\<close>

record network =
  circuit :: spice_circuit
  input_nodes :: "string list"
  hidden_nodes :: "string list"
  output_nodes :: "string list"
  error_nodes :: "string list"
  ih_cells_fast :: "string list list"
  ih_cells_slow :: "string list list"
  ho_cells_fast :: "string list list"
  ho_cells_slow :: "string list list"

text \<open>The elements added before the synapse loops, in the order of the source.\<close>

definition base_elements :: "nat \<Rightarrow> nat \<Rightarrow> nat \<Rightarrow> element list" where
  "base_elements num_inputs num_hidden num_outputs =
     (let bl_line_cap = 100 / 10 ^ 15; wl_line_cap = 100 / 10 ^ 15; vdd = 10 * 1.2 in
      [VoltageSource ''dd'' ''vdd'' gnd vdd]
      @ map (\<lambda>i. Capacitor (''input_'' @ str_nat i @ ''_gnd_cap'') (''input_'' @ str_nat i) gnd
                    (1 / 10 ^ 15)) [0..<num_inputs]
      @ map (\<lambda>h. Capacitor (''hidden_'' @ str_nat h @ ''_gnd_cap'') (''hidden_'' @ str_nat h) gnd
                    (1 / 10 ^ 15)) [0..<num_hidden]
      @ map (\<lambda>k. Capacitor (''output_'' @ str_nat k @ ''_gnd_cap'') (''output_'' @ str_nat k) gnd
                    (1 / 10 ^ 15)) [0..<num_outputs]
      @ map (\<lambda>node. Capacitor (node @ ''_cap'') node gnd wl_line_cap)
          (map input_node [0..<num_inputs])
      @ concat (map (\<lambda>node. [Capacitor (node @ ''_cap'') node gnd bl_line_cap,
                               Resistor (node @ ''_leak'') node gnd (5 * 10 ^ 6)])
          (map hidden_node [0..<num_hidden]))
      @ concat (map (\<lambda>node. [Capacitor (node @ ''_cap'') node gnd bl_line_cap,
                               Resistor (node @ ''_leak'') node gnd (5 * 10 ^ 6)])
          (map output_node [0..<num_outputs]))
      @ [VoltageSource ''neighbor_mod'' ''v_neighbor_modulate'' gnd 0]
      @ concat (map (\<lambda>k. [Resistor (''verror_'' @ str_nat k @ ''_series'')
                              (''verror_'' @ str_nat k @ ''_src_internal'')
                              (map error_node [0..<num_outputs] ! k) (10 ^ 3),
                            Resistor (''verror_'' @ str_nat k @ ''_pulldown'')
                              (map error_node [0..<num_outputs] ! k) gnd (10 * 10 ^ 6)])
          [0..<num_outputs]))"

definition base_circuit :: "nat \<Rightarrow> nat \<Rightarrow> nat \<Rightarrow> nat \<Rightarrow> spice_circuit" where
  "base_circuit num_inputs num_hidden num_outputs learning_step =
     \<lparr>title = ''Neuromorphic Learning Network (Step '' @ str_nat learning_step @ '')'',
      raw_spice = [''.OPTIONS TRTOL=7'', ''.OPTIONS RELTOL=0.01'', ''.OPTIONS ABSTOL=1e-9'',
                   ''.OPTIONS VNTOL=1e-6'', ''.OPTIONS ITL1=1000'', ''.OPTIONS ITL2=500'',
                   ''.OPTIONS ITL4=100'', ''.OPTIONS GMIN=1e-12'', ''.TEMP 27''],
      elements = base_elements num_inputs num_hidden num_outputs,
      models = [nmos ''nmos_syn'' 0.3 (50 / 10 ^ 6), nmos ''nmos_leak_ctrl'' 0.3 (50 / 10 ^ 6),
                nmos ''nmos_learn'' 0.6 (30 / 10 ^ 6)]\<rparr>"

text \<open>
  \<^verbatim>\<open>build_circuit_for_learning(learning_step)\<close>. The layer sizes and the two
  cell-type matrices are module globals in the source and parameters here; reading a
  cell-type matrix outside its shape raises IndexError.
\<close>

definition build_circuit_for_learning ::
  "nat \<Rightarrow> nat \<Rightarrow> nat \<Rightarrow> cell_matrix \<Rightarrow> cell_matrix \<Rightarrow> nat \<Rightarrow> rng \<Rightarrow> error + (network \<times> rng)" where
  "build_circuit_for_learning num_inputs num_hidden num_outputs
       cell_types_input_hidden cell_types_hidden_output learning_step r0 =
     (case for_loop (ih_synapse num_inputs num_hidden num_outputs cell_types_input_hidden)
             (List.product [0..<num_inputs] [0..<num_hidden])
             (base_circuit num_inputs num_hidden num_outputs learning_step, r0) of
        Inl e \<Rightarrow> Inl e
      | Inr st1 \<Rightarrow>
        (case for_loop (ho_synapse num_hidden num_outputs cell_types_hidden_output)
                (List.product [0..<num_hidden] [0..<num_outputs]) st1 of
           Inl e \<Rightarrow> Inl e
         | Inr (c, r1) \<Rightarrow>
             Inr (\<lparr>circuit = c,
                   input_nodes = map input_node [0..<num_inputs],
                   hidden_nodes = map hidden_node [0..<num_hidden],
                   output_nodes = map output_node [0..<num_outputs],
                   error_nodes = map error_node [0..<num_outputs],
                   ih_cells_fast = cells_table ''ih'' ''_fast'' num_inputs num_hidden,
                   ih_cells_slow = cells_table ''ih'' ''_slow'' num_inputs num_hidden,
                   ho_cells_fast = cells_table ''ho'' ''_fast'' num_hidden num_outputs,
                   ho_cells_slow = cells_table ''ho'' ''_slow'' num_hidden num_outputs\<rparr>, r1)))"

text \<open>The observations on a circuit that the properties below are about.\<close>

definition is_capacitor_to_gnd :: "string \<Rightarrow> element \<Rightarrow> bool" where
  "is_capacitor_to_gnd node e =
     (case e of Capacitor nm p m v \<Rightarrow> p = node \<and> m = gnd | _ \<Rightarrow> False)"

definition has_capacitor_to_gnd :: "spice_circuit \<Rightarrow> string \<Rightarrow> bool" where
  "has_capacitor_to_gnd c node = list_ex (is_capacitor_to_gnd node) (elements c)"

definition is_resistor_to_gnd :: "string \<Rightarrow> element \<Rightarrow> bool" where
  "is_resistor_to_gnd node e =
     (case e of Resistor nm p m v \<Rightarrow> p = node \<and> m = gnd | _ \<Rightarrow> False)"

definition has_resistor_to_gnd :: "spice_circuit \<Rightarrow> string \<Rightarrow> bool" where
  "has_resistor_to_gnd c node = list_ex (is_resistor_to_gnd node) (elements c)"

definition is_gated_by :: "string \<Rightarrow> element \<Rightarrow> bool" where
  "is_gated_by node e =
     (case e of MOSFET nm drain gate source bulk model \<Rightarrow> gate = node | _ \<Rightarrow> False)"

definition has_gate_on :: "spice_circuit \<Rightarrow> string \<Rightarrow> bool" where
  "has_gate_on c node = list_ex (is_gated_by node) (elements c)"

definition is_neighbor_leak_ctrl :: "string \<Rightarrow> element \<Rightarrow> bool" where
  "is_neighbor_leak_ctrl fast_node e =
     (case e of MOSFET nm drain gate source bulk model \<Rightarrow>
        gate = fast_node \<and> source = ''v_neighbor_modulate'' | _ \<Rightarrow> False)"

definition has_neighbor_leak_ctrl :: "spice_circuit \<Rightarrow> string \<Rightarrow> bool" where
  "has_neighbor_leak_ctrl c fast_node = list_ex (is_neighbor_leak_ctrl fast_node) (elements c)"

definition is_source_to_gnd :: "string \<Rightarrow> element \<Rightarrow> bool" where
  "is_source_to_gnd node e =
     (case e of VoltageSource nm p m v \<Rightarrow> p = node \<and> m = gnd | _ \<Rightarrow> False)"

definition has_source_to_gnd :: "spice_circuit \<Rightarrow> string \<Rightarrow> bool" where
  "has_source_to_gnd c node = list_ex (is_source_to_gnd node) (elements c)"

subsection \<open>Stimulus generation\<close>

text \<open>
  The time axis and the value lists that \<^verbatim>\<open>generate_simulation_signals\<close> builds
  up: one list per input line, one per error line and one for the neighbour modulation.
\<close>

record signals =
  T :: "real list"
  t_current :: real
  V_inputs :: "real list list"
  V_errors :: "real list list"
  V_neighbor_mod :: "real list"

definition time_step :: real where
  "time_step = 0.05 / 10 ^ 6"

text \<open>
  One sample: the time advances by \<open>dt\<close> and is appended to \<open>T\<close>, and every channel
  gets one more value (input line \<open>i\<close> gets \<open>v_in i\<close>, error line \<open>k\<close> gets \<open>v_err k\<close>).
\<close>

definition append_sample ::
  "nat \<Rightarrow> nat \<Rightarrow> real \<Rightarrow> (nat \<Rightarrow> real) \<Rightarrow> (nat \<Rightarrow> real) \<Rightarrow> real \<Rightarrow> signals \<Rightarrow> signals" where
  "append_sample num_inputs num_outputs dt v_in v_err v_mod s =
     \<lparr>T = T s @ [t_current s + dt],
      t_current = t_current s + dt,
      V_inputs = map (\<lambda>i. V_inputs s ! i @ [v_in i]) [0..<num_inputs],
      V_errors = map (\<lambda>k. V_errors s ! k @ [v_err k]) [0..<num_outputs],
      V_neighbor_mod = V_neighbor_mod s @ [v_mod]\<rparr>"

text \<open>
  The five phases of one pattern, two samples each: the statements of the body of the
  loop over the training samples.
\<close>

definition pattern_samples ::
  "nat \<Rightarrow> nat \<Rightarrow> nat \<Rightarrow> int list \<Rightarrow> int list \<Rightarrow> signals \<Rightarrow> signals" where
  "pattern_samples num_inputs num_outputs learning_step pattern target s0 =
     (let vdd = 1.2;
          present_duration = 5 / 10 ^ 6;
          forward_duration = 5 / 10 ^ 6;
          error_duration = 5 / 10 ^ 6;
          update_duration = 5 / 10 ^ 6;
          rest_duration = 5 / 10 ^ 6;
          present_strength = 15;
          error_strength = 1 * (1 - 0.2 * real learning_step);
          inhibit_strength = 0.8 * (1 + 0.2 * real learning_step);
          app = append_sample num_inputs num_outputs;
          s1 = app time_step (\<lambda>i. if pattern ! i > 0 then vdd * present_strength else 0)
                 (\<lambda>k. 0) 0 s0;
          s2 = app (present_duration - time_step) (\<lambda>i. last (V_inputs s1 ! i)) (\<lambda>k. 0) 0 s1;
          s3 = app time_step (\<lambda>i. 0) (\<lambda>k. 0) 0 s2;
          s4 = app (forward_duration - time_step) (\<lambda>i. 0) (\<lambda>k. 0) 0 s3;
          s5 = app time_step (\<lambda>i. 0)
                 (\<lambda>k. if target ! k > 0 then - error_strength * vdd
                       else error_strength * vdd * 0.5)
                 (inhibit_strength * vdd) s4;
          s6 = app (error_duration - time_step) (\<lambda>i. 0) (\<lambda>k. last (V_errors s5 ! k))
                 (last (V_neighbor_mod s5)) s5;
          s7 = app time_step (\<lambda>i. 0) (\<lambda>k. 0) (last (V_neighbor_mod s6)) s6;
          s8 = app (update_duration - time_step) (\<lambda>i. 0) (\<lambda>k. 0)
                 (last (V_neighbor_mod s7)) s7;
          s9 = app time_step (\<lambda>i. 0) (\<lambda>k. 0) 0 s8;
          s10 = app (rest_duration - time_step) (\<lambda>i. 0) (\<lambda>k. 0) 0 s9
      in s10)"

text \<open>
  The body of the loop: reading \<open>pattern[i]\<close> for \<open>i\<close> in \<open>range(num_inputs)\<close> or
  \<open>target[o]\<close> for \<open>o\<close> in \<open>range(num_outputs)\<close> beyond the end raises IndexError.
\<close>

definition pattern_signals ::
  "nat \<Rightarrow> nat \<Rightarrow> nat \<Rightarrow> int list \<times> int list \<Rightarrow> signals \<Rightarrow> error + signals" where
  "pattern_signals num_inputs num_outputs learning_step sample s0 =
     (case sample of (pattern, target) \<Rightarrow>
      if length pattern < num_inputs \<or> length target < num_outputs then Inl IndexError
      else Inr (pattern_samples num_inputs num_outputs learning_step pattern target s0))"

text \<open>
  The waveforms of \<^verbatim>\<open>generate_simulation_signals\<close>: the initial sample, the loop
  over \<^verbatim>\<open>zip(train_patterns, train_targets)\<close>, and the final rest sample.
\<close>

definition stimulus_waveforms ::
  "nat \<Rightarrow> nat \<Rightarrow> int list list \<Rightarrow> int list list \<Rightarrow> nat \<Rightarrow> error + signals" where
  "stimulus_waveforms num_inputs num_outputs train_patterns train_targets learning_step =
     (case for_loop (pattern_signals num_inputs num_outputs learning_step)
             (zip train_patterns train_targets)
             \<lparr>T = [0], t_current = 0, V_inputs = replicate num_inputs [0],
              V_errors = replicate num_outputs [0], V_neighbor_mod = [0]\<rparr> of
        Inl e \<Rightarrow> Inl e
      | Inr s \<Rightarrow>
          Inr (append_sample num_inputs num_outputs (5 / 10 ^ 6) (\<lambda>i. 0) (\<lambda>k. 0) 0 s))"

text \<open>
  \<^verbatim>\<open>generate_simulation_signals\<close>: the waveforms become piecewise-linear sources of
  the circuit, each behind a series resistor; the function returns the time axis and the
  end time. \<open>input_nodes[i]\<close> beyond the end of the list raises IndexError. The
  source's parameters \<open>output_nodes\<close> and \<open>error_nodes\<close> are not read by it and are
  left out; the circuit, which the source mutates, is returned.
\<close>

definition generate_simulation_signals ::
  "nat \<Rightarrow> nat \<Rightarrow> spice_circuit \<Rightarrow> string list \<Rightarrow> int list list \<Rightarrow> int list list \<Rightarrow> nat \<Rightarrow>
   error + (spice_circuit \<times> real list \<times> real)" where
  "generate_simulation_signals num_inputs num_outputs c nodes_in train_patterns train_targets
       learning_step =
     (case stimulus_waveforms num_inputs num_outputs train_patterns train_targets learning_step of
        Inl e \<Rightarrow> Inl e
      | Inr s \<Rightarrow>
          if length nodes_in < num_inputs then Inl IndexError
          else
            (let c1 = add_elements
                        (concat (map (\<lambda>i.
                           [PieceWiseLinearVoltageSource (''V_input_'' @ str_nat i)
                              (''V_input_'' @ str_nat i @ ''_temp'') gnd (zip (T s) (V_inputs s ! i)),
                            Resistor (''R_input_'' @ str_nat i)
                              (''V_input_'' @ str_nat i @ ''_temp'') (nodes_in ! i) 100])
                           [0..<num_inputs])) c;
                 c2 = add_elements
                        (map (\<lambda>k.
                           PieceWiseLinearVoltageSource (''V_error_'' @ str_nat k)
                             (''verror_'' @ str_nat k @ ''_src_internal'') gnd
                             (zip (T s) (V_errors s ! k)))
                           [0..<num_outputs]) c1;
                 c3 = add_elements
                        [PieceWiseLinearVoltageSource ''V_neighbor_mod'' ''V_neighbor_mod_temp'' gnd
                           (zip (T s) (V_neighbor_mod s)),
                         Resistor ''R_neighbor_mod'' ''V_neighbor_mod_temp''
                           ''v_neighbor_modulate'' 100] c2
             in Inr (c3, T s, t_current s)))"

text \<open>
  The shape of the waveforms after \<open>m\<close> samples beyond the initial one: every channel
  has as many values as the time axis, whose last entry is the current time.
\<close>

definition wave_ok :: "nat \<Rightarrow> nat \<Rightarrow> nat \<Rightarrow> signals \<Rightarrow> bool" where
  "wave_ok num_inputs num_outputs m s \<longleftrightarrow>
     length (T s) = Suc m \<and> sorted_wrt (<) (T s) \<and> last (T s) = t_current s \<and>
     length (V_inputs s) = num_inputs \<and>
     (\<forall>i<num_inputs. length (V_inputs s ! i) = Suc m) \<and>
     length (V_errors s) = num_outputs \<and>
     (\<forall>k<num_outputs. length (V_errors s ! k) = Suc m) \<and>
     length (V_neighbor_mod s) = Suc m"

text \<open>
  The ten values one pattern contributes to an error line and to the neighbour
  modulation, as the loop body below is proved to append them.
\<close>

definition error_value :: "nat \<Rightarrow> int \<Rightarrow> real" where
  "error_value learning_step b =
     (if b > 0 then - (1 * (1 - 0.2 * real learning_step)) * 1.2
      else 1 * (1 - 0.2 * real learning_step) * 1.2 * 0.5)"

definition inhibit_value :: "nat \<Rightarrow> real" where
  "inhibit_value learning_step = 0.8 * (1 + 0.2 * real learning_step) * 1.2"

definition error_block :: "nat \<Rightarrow> nat \<Rightarrow> int list \<times> int list \<Rightarrow> real list" where
  "error_block learning_step k sample =
     [0, 0, 0, 0, error_value learning_step (snd sample ! k),
      error_value learning_step (snd sample ! k), 0, 0, 0, 0]"

definition inhibit_block :: "nat \<Rightarrow> real list" where
  "inhibit_block learning_step =
     [0, 0, 0, 0, inhibit_value learning_step, inhibit_value learning_step,
      inhibit_value learning_step, inhibit_value learning_step, 0, 0]"

definition input_block :: "nat \<Rightarrow> int list \<times> int list \<Rightarrow> real list" where
  "input_block i sample =
     [if fst sample ! i > 0 then 1.2 * 15 else 0, if fst sample ! i > 0 then 1.2 * 15 else 0,
      0, 0, 0, 0, 0, 0, 0, 0]"

subsection \<open>State extraction\<close>

text \<open>
  A simulation result as the extraction reads it: the time axis and a dictionary from
  node names to voltage traces. The failure marker \<^verbatim>\<open>None\<close> is \<open>None\<close>.
\<close>

record analysis =
  time :: "real list"
  nodes :: "string \<rightharpoonup> real list"

text \<open>\<^verbatim>\<open>str.lower()\<close> on the ASCII names the program uses.\<close>

definition lower_char :: "char \<Rightarrow> char" where
  "lower_char c =
     (let n = (of_char c :: nat) in if 65 \<le> n \<and> n \<le> 90 then char_of (n + 32) else c)"

definition lower :: "string \<Rightarrow> string" where
  "lower s = map lower_char s"

text \<open>
  \<^verbatim>\<open>np.random.uniform(low, high, n)\<close> and
  \<^verbatim>\<open>np.random.uniform(low, high, (rows, cols))\<close>: the draws fill the array in
  row-major order.
\<close>

fun uniform_list :: "real \<Rightarrow> real \<Rightarrow> nat \<Rightarrow> rng \<Rightarrow> real list \<times> rng" where
  "uniform_list low high 0 r = ([], r)"
| "uniform_list low high (Suc n) r =
     (let (x, r1) = random_uniform low high r;
          (xs, r2) = uniform_list low high n r1
      in (x # xs, r2))"

fun uniform_matrix :: "real \<Rightarrow> real \<Rightarrow> nat \<Rightarrow> nat \<Rightarrow> rng \<Rightarrow> real list list \<times> rng" where
  "uniform_matrix low high 0 cols r = ([], r)"
| "uniform_matrix low high (Suc rows) cols r =
     (let (row, r1) = uniform_list low high cols r;
          (rest, r2) = uniform_matrix low high rows cols r1
      in (row # rest, r2))"

definition zeros :: "nat \<Rightarrow> nat \<Rightarrow> real list list" where
  "zeros rows cols = replicate rows (replicate cols 0)"

text \<open>\<open>cells[i][h]\<close> on a list of lists of names.\<close>

definition get_name :: "string list list \<Rightarrow> nat \<Rightarrow> nat \<Rightarrow> error + string" where
  "get_name cells i h =
     (if i < length cells \<and> h < length (cells ! i) then Inr (cells ! i ! h) else Inl IndexError)"

definition set_entry :: "real list list \<Rightarrow> nat \<Rightarrow> nat \<Rightarrow> real \<Rightarrow> real list list" where
  "set_entry w i h v = w[i := (w ! i)[h := v]]"

text \<open>The fallback \<^verbatim>\<open>weights[i, h] = np.random.uniform(0.1, 0.5)\<close>.\<close>

definition random_weight :: "real list list \<Rightarrow> nat \<Rightarrow> nat \<Rightarrow> rng \<Rightarrow> real list list \<times> rng" where
  "random_weight weights i h r =
     (let (x, r') = random_uniform 0.1 0.5 r in (set_entry weights i h x, r'))"

text \<open>
  The body of the two weight loops of \<^verbatim>\<open>extract_network_state\<close> for the synapse
  \<open>(i, h)\<close>. A missing node gives a random weight; so does an exception while the
  final values are read, which is what \<open>v[-1]\<close> raises on an empty trace.
\<close>

definition extract_weight ::
  "analysis \<Rightarrow> string list list \<Rightarrow> string list list \<Rightarrow> nat \<times> nat \<Rightarrow>
   real list list \<times> rng \<Rightarrow> error + (real list list \<times> rng)" where
  "extract_weight a cells_fast cells_slow pos st =
     (case (pos, st) of ((i, h), (weights, r)) \<Rightarrow>
      case get_name cells_fast i h of
        Inl e \<Rightarrow> Inl e
      | Inr fast_name \<Rightarrow>
      (case get_name cells_slow i h of
         Inl e \<Rightarrow> Inl e
       | Inr slow_name \<Rightarrow>
         (let fast_node = lower fast_name; slow_node = lower slow_name in
          case (nodes a fast_node, nodes a slow_node) of
            (Some v_fast, Some v_slow) \<Rightarrow>
              if v_fast \<noteq> [] \<and> v_slow \<noteq> [] then
                (let combined_v = last v_fast + last v_slow
                 in Inr (set_entry weights i h combined_v, r))
              else Inr (random_weight weights i h r)
          | _ \<Rightarrow> Inr (random_weight weights i h r))))"

text \<open>
  \<^verbatim>\<open>extract_network_state(analysis, ih_cells_fast, ih_cells_slow, ho_cells_fast,
  ho_cells_slow)\<close>, with the layer sizes (module globals in the source) as parameters.
\<close>

definition extract_network_state ::
  "nat \<Rightarrow> nat \<Rightarrow> nat \<Rightarrow> analysis option \<Rightarrow>
   string list list \<Rightarrow> string list list \<Rightarrow> string list list \<Rightarrow> string list list \<Rightarrow> rng \<Rightarrow>
   error + (real list list \<times> real list list \<times> rng)" where
  "extract_network_state num_inputs num_hidden num_outputs result
       cells_ih_fast cells_ih_slow cells_ho_fast cells_ho_slow r0 =
     (let ih_weights = zeros num_inputs num_hidden;
          ho_weights = zeros num_hidden num_outputs
      in case result of
           None \<Rightarrow>
             (let (ih_weights, r1) = uniform_matrix 0.1 0.5 num_inputs num_hidden r0;
                  (ho_weights, r2) = uniform_matrix 0.1 0.5 num_hidden num_outputs r1
              in Inr (ih_weights, ho_weights, r2))
         | Some a \<Rightarrow>
             (case for_loop (extract_weight a cells_ih_fast cells_ih_slow)
                     (List.product [0..<num_inputs] [0..<num_hidden]) (ih_weights, r0) of
                Inl e \<Rightarrow> Inl e
              | Inr (ih_weights, r1) \<Rightarrow>
                  (case for_loop (extract_weight a cells_ho_fast cells_ho_slow)
                          (List.product [0..<num_hidden] [0..<num_outputs]) (ho_weights, r1) of
                     Inl e \<Rightarrow> Inl e
                   | Inr (ho_weights, r2) \<Rightarrow> Inr (ih_weights, ho_weights, r2))))"

text \<open>The raw samples of a random source lie in the half-open unit interval.\<close>

definition unit_draws :: "rng \<Rightarrow> bool" where
  "unit_draws r \<longleftrightarrow> (\<forall>n. 0 \<le> raw_floats r n \<and> raw_floats r n < 1)"

text \<open>
  \<^verbatim>\<open>activity[:, i] = trace\<close> on an array with \<open>ncols\<close> columns: the column index must
  exist, and the trace must have one value per row or a single value, which numpy
  broadcasts down the column.
\<close>

definition fill_column :: "nat \<Rightarrow> real list list \<Rightarrow> nat \<Rightarrow> real list \<Rightarrow> error + real list list" where
  "fill_column ncols activity i trace =
     (if ncols \<le> i then Inl IndexError
      else if length trace = length activity then
        Inr (map (\<lambda>(row, v). row[i := v]) (zip activity trace))
      else if length trace = 1 then Inr (map (\<lambda>row. row[i := trace ! 0]) activity)
      else Inl ValueError)"

text \<open>The body of the loops over \<^verbatim>\<open>enumerate(nodes)\<close>.\<close>

definition fill_from_node ::
  "analysis \<Rightarrow> nat \<Rightarrow> nat \<times> string \<Rightarrow> real list list \<Rightarrow> error + real list list" where
  "fill_from_node a ncols entry activity =
     (case entry of (i, node_name) \<Rightarrow>
        (let node_name_lower = lower node_name in
         case nodes a node_name_lower of
           Some trace \<Rightarrow> fill_column ncols activity i trace
         | None \<Rightarrow> Inr activity))"

text \<open>
  The mock activity that replaces a failed simulation: 1000 time points, random input
  columns with a pulse of 125 points in the quarter that matches the input index, and
  hidden and output columns mixed from the layer before plus noise. Arrays are built
  column by column and turned into rows at the end.
\<close>

definition add_pulse :: "nat \<Rightarrow> nat \<Rightarrow> real list \<times> rng \<Rightarrow> real list \<times> rng" where
  "add_pulse i p st =
     (case st of (col, r) \<Rightarrow>
        (let time_points = 1000;
             start = p * (time_points div 4);
             end_idx = start + time_points div 8
         in if i mod 4 = p mod 4 then
              (let (pulse, r') = uniform_list 0.8 1.2 (end_idx - start) r
               in (take start col @ pulse @ drop end_idx col, r'))
            else (col, r)))"

definition mock_input_column :: "nat \<Rightarrow> rng \<Rightarrow> real list \<times> rng" where
  "mock_input_column i r =
     (let (col, r1) = uniform_list 0 0.2 1000 r in fold (add_pulse i) [0..<4] (col, r1))"

fun mock_input_columns :: "nat list \<Rightarrow> rng \<Rightarrow> real list list \<times> rng" where
  "mock_input_columns [] r = ([], r)"
| "mock_input_columns (i # rest) r =
     (let (col, r1) = mock_input_column i r;
          (cols, r2) = mock_input_columns rest r1
      in (col # cols, r2))"

definition mock_mixed_column :: "real list list \<Rightarrow> nat \<Rightarrow> nat \<Rightarrow> rng \<Rightarrow> real list \<times> rng" where
  "mock_mixed_column prev_cols width h r =
     (let col = fold (\<lambda>i col. if i mod width = h
                                then map (\<lambda>(x, y). x + y * 0.5) (zip col (prev_cols ! i))
                                else col)
                  [0..<length prev_cols] (replicate 1000 0);
          (noise, r') = uniform_list 0 0.2 1000 r
      in (map (\<lambda>(x, y). x + y) (zip col noise), r'))"

fun mock_mixed_columns ::
  "real list list \<Rightarrow> nat \<Rightarrow> nat list \<Rightarrow> rng \<Rightarrow> real list list \<times> rng" where
  "mock_mixed_columns prev_cols width [] r = ([], r)"
| "mock_mixed_columns prev_cols width (h # rest) r =
     (let (col, r1) = mock_mixed_column prev_cols width h r;
          (cols, r2) = mock_mixed_columns prev_cols width rest r1
      in (col # cols, r2))"

definition rows_of_columns :: "nat \<Rightarrow> real list list \<Rightarrow> real list list" where
  "rows_of_columns n cols = map (\<lambda>t. map (\<lambda>col. col ! t) cols) [0..<n]"

text \<open>
  \<^verbatim>\<open>extract_activity_over_time(analysis, input_nodes, hidden_nodes, output_nodes)\<close>:
  the time axis in microseconds and one activity array per layer, one row per time
  sample and one column per neuron.
\<close>

definition extract_activity_over_time ::
  "nat \<Rightarrow> nat \<Rightarrow> nat \<Rightarrow> analysis option \<Rightarrow> string list \<Rightarrow> string list \<Rightarrow> string list \<Rightarrow> rng \<Rightarrow>
   error + (real list \<times> real list list \<times> real list list \<times> real list list \<times> rng)" where
  "extract_activity_over_time num_inputs num_hidden num_outputs result
       nodes_in nodes_hid nodes_out r0 =
     (case result of
        None \<Rightarrow>
          (let time_points = 1000;
               time_us = map (\<lambda>k. 100 * real k / real (time_points - 1)) [0..<time_points];
               (input_cols, r1) = mock_input_columns [0..<num_inputs] r0;
               (hidden_cols, r2) = mock_mixed_columns input_cols num_hidden [0..<num_hidden] r1;
               (output_cols, r3) = mock_mixed_columns hidden_cols num_outputs [0..<num_outputs] r2
           in Inr (time_us, rows_of_columns time_points input_cols,
                   rows_of_columns time_points hidden_cols,
                   rows_of_columns time_points output_cols, r3))
      | Some a \<Rightarrow>
          (let time_us = map (\<lambda>t. t * 10 ^ 6) (time a) in
           case for_loop (fill_from_node a num_inputs) (enumerate 0 nodes_in)
                  (zeros (length time_us) num_inputs) of
             Inl e \<Rightarrow> Inl e
           | Inr input_activity \<Rightarrow>
           (case for_loop (fill_from_node a num_hidden) (enumerate 0 nodes_hid)
                   (zeros (length time_us) num_hidden) of
              Inl e \<Rightarrow> Inl e
            | Inr hidden_activity \<Rightarrow>
            (case for_loop (fill_from_node a num_outputs) (enumerate 0 nodes_out)
                    (zeros (length time_us) num_outputs) of
               Inl e \<Rightarrow> Inl e
             | Inr output_activity \<Rightarrow>
                 Inr (time_us, input_activity, hidden_activity, output_activity, r0)))))"

text \<open>
  What the weight loop leaves in the entry of a synapse: the sum of the final values of
  its two traces when both are there and non-empty, a fallback value (of which \<open>R\<close>
  holds) otherwise.
\<close>

definition weight_ok ::
  "(real \<Rightarrow> bool) \<Rightarrow> analysis \<Rightarrow> string list list \<Rightarrow> string list list \<Rightarrow> nat \<times> nat \<Rightarrow> real \<Rightarrow> bool" where
  "weight_ok R a cells_fast cells_slow pos v =
     (case (nodes a (lower (cells_fast ! fst pos ! snd pos)),
            nodes a (lower (cells_slow ! fst pos ! snd pos))) of
        (Some v_fast, Some v_slow) \<Rightarrow>
          if v_fast \<noteq> [] \<and> v_slow \<noteq> [] then v = last v_fast + last v_slow else R v
      | _ \<Rightarrow> R v)"

definition has_shape :: "nat \<Rightarrow> nat \<Rightarrow> 'a list list \<Rightarrow> bool" where
  "has_shape rows cols m \<longleftrightarrow> length m = rows \<and> (\<forall>row\<in>set m. length row = cols)"


text \<open>
  The synapses for which the weight loop draws a random weight: one of the two nodes is
  missing from the result, or one of the two traces is empty.
\<close>

definition needs_fallback ::
  "analysis \<Rightarrow> string list list \<Rightarrow> string list list \<Rightarrow> nat \<times> nat \<Rightarrow> bool" where
  "needs_fallback a cells_fast cells_slow pos =
     (case (nodes a (lower (cells_fast ! fst pos ! snd pos)),
            nodes a (lower (cells_slow ! fst pos ! snd pos))) of
        (Some v_fast, Some v_slow) \<Rightarrow> v_fast = [] \<or> v_slow = []
      | _ \<Rightarrow> True)"

text \<open>
  The number of random weights the loop over a \<open>rows \<times> cols\<close> layer has drawn when it
  reaches the synapse \<open>(i, h)\<close>, and the number it has drawn when it ends.
\<close>

definition fallbacks_before ::
  "analysis \<Rightarrow> string list list \<Rightarrow> string list list \<Rightarrow> nat \<Rightarrow> nat \<Rightarrow> nat \<Rightarrow> nat \<Rightarrow> nat" where
  "fallbacks_before a cells_fast cells_slow rows cols i h =
     length (filter (needs_fallback a cells_fast cells_slow)
       (take (i * cols + h) (List.product [0..<rows] [0..<cols])))"

definition fallback_count ::
  "analysis \<Rightarrow> string list list \<Rightarrow> string list list \<Rightarrow> nat \<Rightarrow> nat \<Rightarrow> nat" where
  "fallback_count a cells_fast cells_slow rows cols =
     length (filter (needs_fallback a cells_fast cells_slow)
       (List.product [0..<rows] [0..<cols]))"

text \<open>The random source after \<open>k\<close> of its raw samples have been consumed.\<close>

definition skip_floats :: "nat \<Rightarrow> rng \<Rightarrow> rng" where
  "skip_floats k r = r\<lparr>raw_floats := (\<lambda>n. raw_floats r (n + k))\<rparr>"
subsection \<open>Performance evaluation\<close>

text \<open>Python's \<^verbatim>\<open>int(x)\<close> on a float truncates towards zero.\<close>

definition py_int :: "real \<Rightarrow> int" where
  "py_int x = (if 0 \<le> x then \<lfloor>x\<rfloor> else \<lceil>x\<rceil>)"

text \<open>\<^verbatim>\<open>np.argmax\<close>: the first index of the largest entry; an empty array raises.\<close>

fun argmax_scan :: "'a::linorder list \<Rightarrow> nat \<Rightarrow> 'a \<Rightarrow> nat \<Rightarrow> nat" where
  "argmax_scan [] i best besti = besti"
| "argmax_scan (x # xs) i best besti =
     (if best < x then argmax_scan xs (Suc i) x i else argmax_scan xs (Suc i) best besti)"

definition argmax :: "'a::linorder list \<Rightarrow> error + nat" where
  "argmax xs = (case xs of [] \<Rightarrow> Inl ValueError | x # rest \<Rightarrow> Inr (argmax_scan rest 1 x 0))"

text \<open>
  \<^verbatim>\<open>np.mean(rows, axis=0)\<close> of a non-empty block of rows of a two-dimensional array
  (all rows have the width of the first).
\<close>

definition mean_axis0 :: "real list list \<Rightarrow> real list" where
  "mean_axis0 rows =
     map (\<lambda>j. sum_list (map (\<lambda>r. r ! j) rows) / real (length rows)) [0..<length (rows ! 0)]"

text \<open>\<^verbatim>\<open>np.mean\<close> of a list of booleans: the fraction that is true.\<close>

definition mean_bools :: "bool list \<Rightarrow> real" where
  "mean_bools bs = real (length (filter (\<lambda>b. b) bs)) / real (length bs)"

text \<open>The body of the loop over the pattern index \<open>p\<close> of \<^verbatim>\<open>calculate_performance\<close>.\<close>

definition pattern_correct ::
  "real list list \<Rightarrow> int list list \<Rightarrow> int \<Rightarrow> nat \<Rightarrow> error + bool" where
  "pattern_correct output_activity targets time_points_per_pattern p =
     (let start_idx = min (int p * time_points_per_pattern) (int (length output_activity) - 1);
          end_idx = min (start_idx + py_int (real_of_int time_points_per_pattern * 0.5))
                        (int (length output_activity) - 1)
      in if start_idx \<ge> end_idx then Inr False
         else
           (let avg_output =
                  mean_axis0 (take (nat (end_idx - start_idx)) (drop (nat start_idx) output_activity))
            in case argmax avg_output of
                 Inl e \<Rightarrow> Inl e
               | Inr predicted \<Rightarrow>
                   (case argmax (targets ! p) of
                      Inl e \<Rightarrow> Inl e
                    | Inr true_class \<Rightarrow> Inr (predicted = true_class))))"

fun pattern_loop ::
  "real list list \<Rightarrow> int list list \<Rightarrow> int \<Rightarrow> nat list \<Rightarrow> bool list \<Rightarrow> error + bool list" where
  "pattern_loop output_activity targets tpp [] accuracies = Inr accuracies"
| "pattern_loop output_activity targets tpp (p # ps) accuracies =
     (case pattern_correct output_activity targets tpp p of
        Inl e \<Rightarrow> Inl e
      | Inr correct \<Rightarrow> pattern_loop output_activity targets tpp ps (accuracies @ [correct]))"

text \<open>
  \<^verbatim>\<open>calculate_performance(output_activity, targets, time_us, phase_duration)\<close>.
  The time axis is a numpy array, so a zero step makes the quotient infinite and
  \<^verbatim>\<open>int\<close> raises OverflowError.
\<close>

definition calculate_performance ::
  "real list list \<Rightarrow> int list list \<Rightarrow> real list \<Rightarrow> real \<Rightarrow> error + (real \<times> bool list)" where
  "calculate_performance output_activity targets time_us phase_duration =
     (let pattern_duration = phase_duration in
      if length time_us \<le> 1 then Inr (0, replicate (length targets) False)
      else if time_us ! 1 - time_us ! 0 = 0 then Inl OverflowError
      else
        (let time_points_per_pattern =
               max 1 (py_int (pattern_duration / (time_us ! 1 - time_us ! 0)));
             num_patterns = length targets
         in case pattern_loop output_activity targets time_points_per_pattern
                   [0..<num_patterns] [] of
              Inl e \<Rightarrow> Inl e
            | Inr accuracies \<Rightarrow>
                (let accuracies =
                       accuracies @ replicate (num_patterns - length accuracies) False;
                     accuracy = (if accuracies \<noteq> [] then mean_bools accuracies else 0)
                 in Inr (accuracy, accuracies))))"

subsection \<open>The learning loop\<close>

text \<open>
  The transient solver is outside the repository. It is a parameter \<open>solver\<close>: given
  the circuit, the step time and the end time it returns a result or raises.
  \<^verbatim>\<open>run_simulation\<close> catches every exception of the transient call and returns
  the failure marker (the construction of the simulator object, before the
  \<^verbatim>\<open>try\<close>, is taken to succeed).
\<close>

type_synonym solver = "spice_circuit \<Rightarrow> real \<Rightarrow> real \<Rightarrow> error + analysis"

definition run_simulation :: "solver \<Rightarrow> spice_circuit \<Rightarrow> real \<Rightarrow> analysis option" where
  "run_simulation transient c end_time =
     (case transient c time_step end_time of Inl e \<Rightarrow> None | Inr a \<Rightarrow> Some a)"

text \<open>What \<^verbatim>\<open>run_learning_experiment\<close> accumulates and returns.\<close>

record history =
  train_accuracies :: "real list"
  ih_weights_history :: "real list list list"
  ho_weights_history :: "real list list list"

text \<open>
  The body of the loop over the learning steps. After the simulation the source
  iterates over \<^verbatim>\<open>analysis.nodes\<close> to print the voltages; on the failure marker
  that attribute access raises AttributeError. The plotting calls have no effect on the
  returned history and are left out.
\<close>

definition run_learning_step ::
  "nat \<Rightarrow> nat \<Rightarrow> nat \<Rightarrow> cell_matrix \<Rightarrow> cell_matrix \<Rightarrow> solver \<Rightarrow> int list list \<Rightarrow> int list list \<Rightarrow>
   nat \<Rightarrow> history \<times> rng \<Rightarrow> error + (history \<times> rng)" where
  "run_learning_step num_inputs num_hidden num_outputs cell_types_ih cell_types_ho transient
       train_patterns train_targets step st =
     (case st of (hist, r0) \<Rightarrow>
      case build_circuit_for_learning num_inputs num_hidden num_outputs
             cell_types_ih cell_types_ho step r0 of
        Inl e \<Rightarrow> Inl e
      | Inr (net, r1) \<Rightarrow>
      (case generate_simulation_signals num_inputs num_outputs (circuit net) (input_nodes net)
              train_patterns train_targets step of
         Inl e \<Rightarrow> Inl e
       | Inr (c, Ts, end_time) \<Rightarrow>
       (let result = run_simulation transient c end_time in
        case result of
          None \<Rightarrow> Inl AttributeError
        | Some a \<Rightarrow>
        (case extract_network_state num_inputs num_hidden num_outputs result
                (ih_cells_fast net) (ih_cells_slow net) (ho_cells_fast net) (ho_cells_slow net)
                r1 of
           Inl e \<Rightarrow> Inl e
         | Inr (ih_weights, ho_weights, r2) \<Rightarrow>
         (case extract_activity_over_time num_inputs num_hidden num_outputs result
                 (input_nodes net) (hidden_nodes net) (output_nodes net) r2 of
            Inl e \<Rightarrow> Inl e
          | Inr (time_us, input_activity, hidden_activity, output_activity, r3) \<Rightarrow>
          (case calculate_performance output_activity train_targets time_us 20 of
             Inl e \<Rightarrow> Inl e
           | Inr (accuracy, pattern_accuracies) \<Rightarrow>
               Inr (\<lparr>train_accuracies = train_accuracies hist @ [accuracy],
                     ih_weights_history = ih_weights_history hist @ [ih_weights],
                     ho_weights_history = ho_weights_history hist @ [ho_weights]\<rparr>, r3)))))))"

text \<open>
  \<^verbatim>\<open>run_learning_experiment()\<close>, with the layer sizes, the number of learning
  steps and the training set (module globals in the source) as parameters. The final
  report reads \<^verbatim>\<open>train_accuracies[-1]\<close>, which raises IndexError when no step
  has run.
\<close>

definition run_learning_experiment ::
  "nat \<Rightarrow> nat \<Rightarrow> nat \<Rightarrow> nat \<Rightarrow> solver \<Rightarrow> int list list \<Rightarrow> int list list \<Rightarrow> rng \<Rightarrow>
   error + (history \<times> rng)" where
  "run_learning_experiment num_inputs num_hidden num_outputs LEARNING_STEPS transient
       train_patterns train_targets r0 =
     (case initialize_network_architecture num_inputs num_hidden num_outputs r0 of
        Inl e \<Rightarrow> Inl e
      | Inr (cell_types_ih, cell_types_ho, r1) \<Rightarrow>
        (let (ih0, r2) = uniform_matrix 0 0.2 num_inputs num_hidden r1;
             (ho0, r3) = uniform_matrix 0 0.2 num_hidden num_outputs r2;
             hist0 = \<lparr>train_accuracies = [], ih_weights_history = [ih0],
                      ho_weights_history = [ho0]\<rparr>
         in case for_loop (run_learning_step num_inputs num_hidden num_outputs cell_types_ih
                             cell_types_ho transient train_patterns train_targets)
                   [0..<LEARNING_STEPS] (hist0, r3) of
              Inl e \<Rightarrow> Inl e
            | Inr (hist, r4) \<Rightarrow>
                if train_accuracies hist = [] then Inl IndexError else Inr (hist, r4)))"

section \<open>Properties\<close>

subsection \<open>Loops\<close>

lemma for_loop_append:
  "for_loop body (xs @ ys) s =
     (case for_loop body xs s of Inl e \<Rightarrow> Inl e | Inr s' \<Rightarrow> for_loop body ys s')"
  by (induction xs arbitrary: s) (auto split: sum.splits)

lemma for_loop_invariant:
  assumes "for_loop body xs s = Inr s'" and "P s"
    and "\<And>x t t'. x \<in> set xs \<Longrightarrow> P t \<Longrightarrow> body x t = Inr t' \<Longrightarrow> P t'"
  shows "P s'"
  using assms
proof (induction xs arbitrary: s)
  case Nil
  then show ?case by simp
next
  case (Cons x xs)
  from Cons.prems(1) obtain t where t: "body x s = Inr t" and rest: "for_loop body xs t = Inr s'"
    by (auto split: sum.splits)
  have "P t" using Cons.prems(2,3) t by auto
  then show ?case using Cons.IH [OF rest] Cons.prems(3) by auto
qed

lemma for_loop_establishes:
  assumes "for_loop body xs s = Inr s'"
    and adds: "\<And>x t t'. x \<in> set xs \<Longrightarrow> body x t = Inr t' \<Longrightarrow> Q x t'"
    and keep: "\<And>x y t t'. y \<in> set xs \<Longrightarrow> body y t = Inr t' \<Longrightarrow> Q x t \<Longrightarrow> Q x t'"
  shows "\<forall>x\<in>set xs. Q x s'"
  using assms
proof (induction xs arbitrary: s)
  case Nil
  then show ?case by simp
next
  case (Cons a xs)
  from Cons.prems(1) obtain t where t: "body a s = Inr t" and rest: "for_loop body xs t = Inr s'"
    by (auto split: sum.splits)
  have tail: "\<forall>x\<in>set xs. Q x s'"
  proof (rule Cons.IH [OF rest])
    show "\<And>x t t'. x \<in> set xs \<Longrightarrow> body x t = Inr t' \<Longrightarrow> Q x t'"
      using Cons.prems(2) by simp
    show "\<And>x y t t'. y \<in> set xs \<Longrightarrow> body y t = Inr t' \<Longrightarrow> Q x t \<Longrightarrow> Q x t'"
      using Cons.prems(3) by (meson list.set_intros(2))
  qed
  have "Q a t" using Cons.prems(2) t by simp
  moreover have "Q a u \<Longrightarrow> for_loop body xs u = Inr s' \<Longrightarrow> Q a s'" for u
  proof -
    assume u: "Q a u" "for_loop body xs u = Inr s'"
    show "Q a s'"
    proof (rule for_loop_invariant [OF u(2), where P = "Q a"])
      show "Q a u" by (rule u(1))
      show "\<And>x t t'. x \<in> set xs \<Longrightarrow> Q a t \<Longrightarrow> body x t = Inr t' \<Longrightarrow> Q a t'"
        using Cons.prems(3) by (meson list.set_intros(2))
    qed
  qed
  ultimately have "Q a s'" using rest by blast
  with tail show ?case by simp
qed

lemma for_loop_total:
  assumes "\<And>x s. x \<in> set xs \<Longrightarrow> \<exists>s'. body x s = Inr s'"
  shows "\<exists>s'. for_loop body xs s = Inr s'"
  using assms
proof (induction xs arbitrary: s)
  case Nil
  then show ?case by simp
next
  case (Cons a xs)
  from Cons.prems [of a s] obtain t where t: "body a s = Inr t" by auto
  from Cons.IH [of t] Cons.prems obtain s' where "for_loop body xs t = Inr s'" by auto
  with t show ?case by simp
qed

lemma for_loop_establishes_inv:
  assumes "for_loop body xs s = Inr s'" "I s"
    and inv: "\<And>x t t'. x \<in> set xs \<Longrightarrow> I t \<Longrightarrow> body x t = Inr t' \<Longrightarrow> I t'"
    and adds: "\<And>x t t'. x \<in> set xs \<Longrightarrow> I t \<Longrightarrow> body x t = Inr t' \<Longrightarrow> Q x t'"
    and keep: "\<And>x y t t'. x \<in> set xs \<Longrightarrow> y \<in> set xs \<Longrightarrow> I t \<Longrightarrow> body y t = Inr t' \<Longrightarrow>
                 Q x t \<Longrightarrow> Q x t'"
  shows "I s' \<and> (\<forall>x\<in>set xs. Q x s')"
  using assms
proof (induction xs arbitrary: s)
  case Nil
  then show ?case by simp
next
  case (Cons a xs)
  from Cons.prems(1) obtain t where t: "body a s = Inr t" and rest: "for_loop body xs t = Inr s'"
    by (auto split: sum.splits)
  have It: "I t" using Cons.prems(3) [of a s t] Cons.prems(2) t by simp
  have Qa: "Q a t" using Cons.prems(4) [of a s t] Cons.prems(2) t by simp
  have tail: "I s' \<and> (\<forall>x\<in>set xs. Q x s')"
  proof (rule Cons.IH [OF rest It])
    show "\<And>x t t'. x \<in> set xs \<Longrightarrow> I t \<Longrightarrow> body x t = Inr t' \<Longrightarrow> I t'"
      using Cons.prems(3) by (meson list.set_intros(2))
    show "\<And>x t t'. x \<in> set xs \<Longrightarrow> I t \<Longrightarrow> body x t = Inr t' \<Longrightarrow> Q x t'"
      using Cons.prems(4) by (meson list.set_intros(2))
    show "\<And>x y t t'. x \<in> set xs \<Longrightarrow> y \<in> set xs \<Longrightarrow> I t \<Longrightarrow> body y t = Inr t' \<Longrightarrow>
                 Q x t \<Longrightarrow> Q x t'"
      using Cons.prems(5) by (meson list.set_intros(2))
  qed
  have "I s' \<and> Q a s'"
  proof (rule for_loop_invariant [OF rest, where P = "\<lambda>u. I u \<and> Q a u"])
    show "I t \<and> Q a t" using It Qa by simp
    show "\<And>x u u'. x \<in> set xs \<Longrightarrow> I u \<and> Q a u \<Longrightarrow> body x u = Inr u' \<Longrightarrow> I u' \<and> Q a u'"
      using Cons.prems(3,5) by (meson list.set_intros)
  qed
  with tail show ?case by simp
qed

subsection \<open>Topology generation\<close>

lemma sram_diag_init:
  "sram_diag_upto 0 d1 d2 (replicate d1 (replicate d2 CELL_TYPE_DRAM_LEAKY))"
  by (simp add: sram_diag_upto_def)

lemma set_cell_diag:
  assumes "sram_diag_upto k d1 d2 m" "set_cell CELL_TYPE_SRAM (k, k) m = Inr m'"
  shows "sram_diag_upto (Suc k) d1 d2 m'"
proof -
  from assms(2) have k: "k < length m" "k < length (m ! k)" and m': "m' = m[k := (m ! k)[k := CELL_TYPE_SRAM]]"
    by (auto simp: set_cell_def split: if_splits)
  from assms(1) k have kd: "k < d1" "k < d2" by (auto simp: sram_diag_upto_def)
  show ?thesis
    using assms(1) kd unfolding sram_diag_upto_def m'
    by (auto simp: nth_list_update less_Suc_eq)
qed

lemma diag_loop:
  "k \<le> min d1 d2 \<Longrightarrow> sram_diag_upto 0 d1 d2 m \<Longrightarrow>
   \<exists>m'. for_loop (\<lambda>i. set_cell CELL_TYPE_SRAM (i, i)) [0..<k] m = Inr m' \<and> sram_diag_upto k d1 d2 m'"
proof (induction k)
  case 0
  then show ?case by simp
next
  case (Suc k)
  then obtain m1 where m1: "for_loop (\<lambda>i. set_cell CELL_TYPE_SRAM (i, i)) [0..<k] m = Inr m1"
    and inv: "sram_diag_upto k d1 d2 m1" by auto
  from inv Suc.prems(1) have "k < length m1" "k < length (m1 ! k)"
    by (auto simp: sram_diag_upto_def)
  then obtain m2 where m2: "set_cell CELL_TYPE_SRAM (k, k) m1 = Inr m2"
    by (auto simp: set_cell_def)
  from set_cell_diag [OF inv m2] m1 m2 show ?case
    by (simp add: for_loop_append)
qed

lemma set_unless_sram_keeps:
  assumes "sram_diag_upto k d1 d2 m" "set_unless_sram v pos m = Inr m'" "v \<noteq> CELL_TYPE_SRAM"
  shows "sram_diag_upto k d1 d2 m'"
proof (cases "m ! fst pos ! snd pos = CELL_TYPE_SRAM")
  case True
  with assms(2) show ?thesis using assms(1)
    by (auto simp: set_unless_sram_def get_cell_def split: if_splits)
next
  case False
  with assms(2) have r: "fst pos < length m" "snd pos < length (m ! fst pos)"
    and m': "m' = m[fst pos := (m ! fst pos)[snd pos := v]]"
    by (auto simp: set_unless_sram_def get_cell_def set_cell_def split: if_splits prod.splits)
  from assms(1) r have rd: "fst pos < d1" "snd pos < d2" by (auto simp: sram_diag_upto_def)
  have old: "(m ! fst pos ! snd pos = CELL_TYPE_SRAM) = (fst pos = snd pos \<and> fst pos < k)"
    using assms(1) rd by (auto simp: sram_diag_upto_def)
  show ?thesis
    using assms(1,3) rd False old unfolding sram_diag_upto_def m'
    by (auto simp: nth_list_update)
qed

lemma neighbor_step_ih_keeps:
  assumes "sram_diag_upto k d1 d2 (fst st)" "neighbor_step_ih a b h st = Inr st'"
  shows "sram_diag_upto k d1 d2 (fst st')"
proof (cases st)
  case (Pair m r)
  show ?thesis
  proof (cases "filter (\<lambda>n. n \<noteq> h) [0..<b] \<noteq> []")
    case True
    with assms(2) Pair obtain input_idx r' m' where
      loop: "for_loop (\<lambda>i. set_unless_sram CELL_TYPE_DRAM_NEIGHBOR_CTRL_LEAKY (i, h)) input_idx m = Inr m'"
      and st': "st' = (m', r')"
      by (auto simp: neighbor_step_ih_def Let_def split: sum.splits prod.splits if_splits)
    have "sram_diag_upto k d1 d2 m'"
      by (rule for_loop_invariant [OF loop]) (use assms(1) Pair in \<open>auto intro: set_unless_sram_keeps\<close>)
    then show ?thesis by (simp add: st')
  next
    case False
    with assms Pair show ?thesis by (auto simp: neighbor_step_ih_def Let_def)
  qed
qed

lemma neighbor_step_ho_keeps:
  assumes "sram_diag_upto k d1 d2 (fst st)" "neighbor_step_ho b oi st = Inr st'"
  shows "sram_diag_upto k d1 d2 (fst st')"
proof (cases st)
  case (Pair m r)
  with assms(2) obtain hidden_idx r' m' where
    loop: "for_loop (\<lambda>h. set_unless_sram CELL_TYPE_DRAM_NEIGHBOR_CTRL_LEAKY (h, oi)) hidden_idx m = Inr m'"
    and st': "st' = (m', r')"
    by (auto simp: neighbor_step_ho_def split: sum.splits prod.splits)
  have "sram_diag_upto k d1 d2 m'"
    by (rule for_loop_invariant [OF loop]) (use assms(1) Pair in \<open>auto intro: set_unless_sram_keeps\<close>)
  then show ?thesis by (simp add: st')
qed

lemma row_count_sram:
  assumes "length row = d2" "\<forall>col<d2. (row ! col = CELL_TYPE_SRAM) = (i = col \<and> i < k)"
  shows "length (filter (\<lambda>c. c = CELL_TYPE_SRAM) row) = (if i < d2 \<and> i < k then 1 else 0)"
proof -
  have "{j. j < length row \<and> row ! j = CELL_TYPE_SRAM} = (if i < d2 \<and> i < k then {i} else {})"
    using assms by auto
  then show ?thesis by (simp add: length_filter_conv_card)
qed

lemma count_sram_diag:
  assumes "sram_diag_upto k d1 d2 m"
  shows "count_sram m = min k (min d1 d2)"
proof -
  have len: "length m = d1" using assms by (simp add: sram_diag_upto_def)
  have "map (\<lambda>row. length (filter (\<lambda>c. c = CELL_TYPE_SRAM) row)) m
        = map (\<lambda>i. if i < d2 \<and> i < k then 1 else 0) [0..<d1]"
  proof (rule nth_equalityI)
    show "length (map (\<lambda>row. length (filter (\<lambda>c. c = CELL_TYPE_SRAM) row)) m)
          = length (map (\<lambda>i. if i < d2 \<and> i < k then 1 else 0) [0..<d1])"
      by (simp add: len)
  next
    fix i assume "i < length (map (\<lambda>row. length (filter (\<lambda>c. c = CELL_TYPE_SRAM) row)) m)"
    then have i: "i < d1" by (simp add: len)
    have "length (filter (\<lambda>c. c = CELL_TYPE_SRAM) (m ! i)) = (if i < d2 \<and> i < k then 1 else 0)"
      by (rule row_count_sram) (use assms i in \<open>auto simp: sram_diag_upto_def\<close>)
    then show "map (\<lambda>row. length (filter (\<lambda>c. c = CELL_TYPE_SRAM) row)) m ! i
               = map (\<lambda>i. if i < d2 \<and> i < k then 1 else 0) [0..<d1] ! i"
      using i len by simp
  qed
  then have "count_sram m = sum_list (map (\<lambda>i. if i < d2 \<and> i < k then 1 else 0) [0..<d1])"
    by (simp add: count_sram_def)
  also have "\<dots> = (\<Sum>i = 0..<d1. if i < d2 \<and> i < k then 1 else 0)"
    by (simp add: interv_sum_list_conv_sum_set_nat)
  also have "\<dots> = card ({0..<d1} \<inter> {i. i < d2 \<and> i < k})"
    by (simp add: sum.If_cases)
  also have "{0..<d1} \<inter> {i. i < d2 \<and> i < k} = {0..<min k (min d1 d2)}"
    by auto
  finally show ?thesis by simp
qed


lemma init_example:
  "initialize_network_architecture 2 2 2 \<lparr>raw_ints = \<lambda>n. 0, raw_floats = \<lambda>n. 0\<rparr>
     = Inr ([[CELL_TYPE_SRAM, CELL_TYPE_DRAM_NEIGHBOR_CTRL_LEAKY],
             [CELL_TYPE_DRAM_LEAKY, CELL_TYPE_SRAM]],
            [[CELL_TYPE_SRAM, CELL_TYPE_DRAM_NEIGHBOR_CTRL_LEAKY],
             [CELL_TYPE_DRAM_NEIGHBOR_CTRL_LEAKY, CELL_TYPE_SRAM]],
            \<lparr>raw_ints = \<lambda>n. 0, raw_floats = \<lambda>n. 0\<rparr>)"
  by (simp add: initialize_network_architecture_def choice_def neighbor_step_ih_def
      neighbor_step_ho_def set_unless_sram_def set_cell_def get_cell_def
      upt_rec numeral_2_eq_2 Let_def)

lemma initialize_network_architecture_diag:
  assumes "initialize_network_architecture num_inputs num_hidden num_outputs r = Inr (ih, ho, r')"
  shows "sram_diag_upto (min num_inputs num_hidden) num_inputs num_hidden ih \<and>
         sram_diag_upto (min num_hidden num_outputs) num_hidden num_outputs ho"
proof -
  let ?kih = "min num_inputs num_hidden" and ?kho = "min num_hidden num_outputs"
  from assms obtain ih1 idx1 r1 ih2 r2 ho1 idx2 r3 ho2 where
    a1: "for_loop (\<lambda>i. set_cell CELL_TYPE_SRAM (i, i)) [0..<?kih]
           (replicate num_inputs (replicate num_hidden CELL_TYPE_DRAM_LEAKY)) = Inr ih1"
    and a2: "for_loop (\<lambda>i. set_unless_sram CELL_TYPE_DRAM_REFRESHED
                               (i div num_hidden, i mod num_hidden)) idx1 ih1 = Inr ih2"
    and a3: "for_loop (neighbor_step_ih num_inputs num_hidden) [0..<num_hidden] (ih2, r1) = Inr (ih, r2)"
    and b1: "for_loop (\<lambda>i. set_cell CELL_TYPE_SRAM (i, i)) [0..<?kho]
           (replicate num_hidden (replicate num_outputs CELL_TYPE_DRAM_LEAKY)) = Inr ho1"
    and b2: "for_loop (\<lambda>i. set_unless_sram CELL_TYPE_DRAM_REFRESHED
                               (i div num_outputs, i mod num_outputs)) idx2 ho1 = Inr ho2"
    and b3: "for_loop (neighbor_step_ho num_hidden) [0..<num_outputs] (ho2, r3) = Inr (ho, r')"
    unfolding initialize_network_architecture_def Let_def
    by (auto split: sum.splits prod.splits)
  have i1: "sram_diag_upto ?kih num_inputs num_hidden ih1"
    using diag_loop [OF order_refl sram_diag_init, of num_inputs num_hidden] a1 by auto
  have i2: "sram_diag_upto ?kih num_inputs num_hidden ih2"
    by (rule for_loop_invariant [OF a2, where P = "sram_diag_upto ?kih num_inputs num_hidden"])
       (use i1 in \<open>auto intro: set_unless_sram_keeps\<close>)
  have "sram_diag_upto ?kih num_inputs num_hidden (fst (ih, r2))"
    by (rule for_loop_invariant [OF a3, where P = "\<lambda>st. sram_diag_upto ?kih num_inputs num_hidden (fst st)"])
       (use i2 in \<open>auto intro: neighbor_step_ih_keeps\<close>)
  then have i3: "sram_diag_upto ?kih num_inputs num_hidden ih" by simp
  have j1: "sram_diag_upto ?kho num_hidden num_outputs ho1"
    using diag_loop [OF order_refl sram_diag_init, of num_hidden num_outputs] b1 by auto
  have j2: "sram_diag_upto ?kho num_hidden num_outputs ho2"
    by (rule for_loop_invariant [OF b2, where P = "sram_diag_upto ?kho num_hidden num_outputs"])
       (use j1 in \<open>auto intro: set_unless_sram_keeps\<close>)
  have "sram_diag_upto ?kho num_hidden num_outputs (fst (ho, r'))"
    by (rule for_loop_invariant [OF b3, where P = "\<lambda>st. sram_diag_upto ?kho num_hidden num_outputs (fst st)"])
       (use j2 in \<open>auto intro: neighbor_step_ho_keeps\<close>)
  then have j3: "sram_diag_upto ?kho num_hidden num_outputs ho" by simp
  from i3 j3 show ?thesis by (rule conjI)
qed

text \<open>
  C4. Whenever topology generation returns, each of the two cell-type matrices has the
  declared shape, its SRAM entries are exactly the diagonal entries, and so there are
  exactly \<open>min dim1 dim2\<close> of them: the two random passes, which only write
  DRAM-Refreshed and DRAM-Neighbor-Controlled, have left every diagonal entry SRAM.
  This holds for all layer sizes and every random source.
\<close>

theorem initialize_network_architecture_sram:
  assumes "initialize_network_architecture num_inputs num_hidden num_outputs r = Inr (ih, ho, r')"
  shows "count_sram ih = min num_inputs num_hidden \<and>
         count_sram ho = min num_hidden num_outputs \<and>
         length ih = num_inputs \<and> (\<forall>row<num_inputs. length (ih ! row) = num_hidden) \<and>
         length ho = num_hidden \<and> (\<forall>row<num_hidden. length (ho ! row) = num_outputs) \<and>
         (\<forall>row<num_inputs. \<forall>col<num_hidden. (ih ! row ! col = CELL_TYPE_SRAM) = (row = col)) \<and>
         (\<forall>row<num_hidden. \<forall>col<num_outputs. (ho ! row ! col = CELL_TYPE_SRAM) = (row = col))"
proof -
  let ?kih = "min num_inputs num_hidden" and ?kho = "min num_hidden num_outputs"
  from initialize_network_architecture_diag [OF assms]
  have i3: "sram_diag_upto ?kih num_inputs num_hidden ih"
    and j3: "sram_diag_upto ?kho num_hidden num_outputs ho" by simp_all
  have c1: "count_sram ih = ?kih" using count_sram_diag [OF i3] by simp
  have c2: "count_sram ho = ?kho" using count_sram_diag [OF j3] by simp
  have d1: "\<forall>row<num_inputs. \<forall>col<num_hidden. (ih ! row ! col = CELL_TYPE_SRAM) = (row = col)"
    using i3 unfolding sram_diag_upto_def by auto
  have d2: "\<forall>row<num_hidden. \<forall>col<num_outputs. (ho ! row ! col = CELL_TYPE_SRAM) = (row = col)"
    using j3 unfolding sram_diag_upto_def by auto
  show ?thesis
    using c1 c2 d1 d2 i3 j3 unfolding sram_diag_upto_def by simp
qed

theorem initialize_network_architecture_sram_witness:
  "initialize_network_architecture 2 2 2 \<lparr>raw_ints = \<lambda>n. 0, raw_floats = \<lambda>n. 0\<rparr>
     = Inr ([[CELL_TYPE_SRAM, CELL_TYPE_DRAM_NEIGHBOR_CTRL_LEAKY],
             [CELL_TYPE_DRAM_LEAKY, CELL_TYPE_SRAM]],
            [[CELL_TYPE_SRAM, CELL_TYPE_DRAM_NEIGHBOR_CTRL_LEAKY],
             [CELL_TYPE_DRAM_NEIGHBOR_CTRL_LEAKY, CELL_TYPE_SRAM]],
            \<lparr>raw_ints = \<lambda>n. 0, raw_floats = \<lambda>n. 0\<rparr>) \<and>
   count_sram [[CELL_TYPE_SRAM, CELL_TYPE_DRAM_NEIGHBOR_CTRL_LEAKY],
               [CELL_TYPE_DRAM_LEAKY, CELL_TYPE_SRAM]] = 2 \<and>
   count_sram [[CELL_TYPE_SRAM, CELL_TYPE_DRAM_NEIGHBOR_CTRL_LEAKY],
               [CELL_TYPE_DRAM_NEIGHBOR_CTRL_LEAKY, CELL_TYPE_SRAM]] = 2"
  using initialize_network_architecture_sram [OF init_example] init_example
  by simp

subsection \<open>Circuit construction\<close>

lemma ih_synapse_elements:
  assumes "ih_synapse num_inputs num_hidden num_outputs m (i, h) (c, r) = Inr (c', r')"
  shows "\<exists>cell r_f c_f r_s c_s.
           get_cell m i h = Inr cell \<and>
           elements c' = elements c
             @ synapse_elements ''ih'' i h cell
                 (cells_table ''ih'' ''_fast'' num_inputs num_hidden ! i ! h)
                 (cells_table ''ih'' ''_slow'' num_inputs num_hidden ! i ! h)
                 (map input_node [0..<num_inputs] ! i) (map hidden_node [0..<num_hidden] ! h)
                 ''vdd'' r_f c_f r_s c_s
             @ map (\<lambda>k. MOSFET (''ih_err'' @ idx2 i h @ ''_'' @ str_nat k) ''vdd''
                          (map error_node [0..<num_outputs] ! k)
                          (cells_table ''ih'' ''_fast'' num_inputs num_hidden ! i ! h)
                          gnd ''nmos_learn'')
                 (filter (\<lambda>k. k = h mod num_outputs) [0..<num_outputs])"
proof -
  from assms obtain cell where cell: "get_cell m i h = Inr cell"
    by (auto simp: ih_synapse_def split: sum.splits)
  define rc1 where "rc1 = randomize_rc (10 ^ 6) (100 / 10 ^ 15) 0.5 37 r"
  define rc2 where "rc2 = randomize_rc (10 ^ 7) (500 / 10 ^ 15) 0.5 37 (snd rc1)"
  from assms cell have eq: "elements c' = elements c
             @ synapse_elements ''ih'' i h cell
                 (cells_table ''ih'' ''_fast'' num_inputs num_hidden ! i ! h)
                 (cells_table ''ih'' ''_slow'' num_inputs num_hidden ! i ! h)
                 (map input_node [0..<num_inputs] ! i) (map hidden_node [0..<num_hidden] ! h)
                 ''vdd'' (fst (fst rc1)) (fst (snd (fst rc1))) (fst (fst rc2)) (fst (snd (fst rc2)))
             @ map (\<lambda>k. MOSFET (''ih_err'' @ idx2 i h @ ''_'' @ str_nat k) ''vdd''
                          (map error_node [0..<num_outputs] ! k)
                          (cells_table ''ih'' ''_fast'' num_inputs num_hidden ! i ! h)
                          gnd ''nmos_learn'')
                 (filter (\<lambda>k. k = h mod num_outputs) [0..<num_outputs])"
    by (auto simp: ih_synapse_def Let_def split_beta add_elements_def add_model_def
        rc1_def rc2_def)
  show ?thesis
    apply (intro exI conjI)
     apply (rule cell)
    apply (rule eq)
    done
qed

lemma ho_synapse_elements:
  assumes "ho_synapse num_hidden num_outputs m (h, k) (c, r) = Inr (c', r')"
  shows "\<exists>cell r_f c_f r_s c_s.
           get_cell m h k = Inr cell \<and>
           elements c' = elements c
             @ synapse_elements ''ho'' h k cell
                 (cells_table ''ho'' ''_fast'' num_hidden num_outputs ! h ! k)
                 (cells_table ''ho'' ''_slow'' num_hidden num_outputs ! h ! k)
                 (map hidden_node [0..<num_hidden] ! h) (map output_node [0..<num_outputs] ! k)
                 (cells_table ''ho'' ''_fast'' num_hidden num_outputs ! h ! k) r_f c_f r_s c_s
             @ [MOSFET (''ho_err'' @ idx2 h k) ''vdd''
                  (map error_node [0..<num_outputs] ! k)
                  (cells_table ''ho'' ''_fast'' num_hidden num_outputs ! h ! k)
                  gnd ''nmos_learn'']"
proof -
  from assms obtain cell where cell: "get_cell m h k = Inr cell"
    by (auto simp: ho_synapse_def split: sum.splits)
  define rc1 where "rc1 = randomize_rc (10 ^ 6) (100 / 10 ^ 15) 0.5 37 r"
  define rc2 where "rc2 = randomize_rc (10 ^ 7) (500 / 10 ^ 15) 0.5 37 (snd rc1)"
  from assms cell have eq: "elements c' = elements c
             @ synapse_elements ''ho'' h k cell
                 (cells_table ''ho'' ''_fast'' num_hidden num_outputs ! h ! k)
                 (cells_table ''ho'' ''_slow'' num_hidden num_outputs ! h ! k)
                 (map hidden_node [0..<num_hidden] ! h) (map output_node [0..<num_outputs] ! k)
                 (cells_table ''ho'' ''_fast'' num_hidden num_outputs ! h ! k)
                 (fst (fst rc1)) (fst (snd (fst rc1))) (fst (fst rc2)) (fst (snd (fst rc2)))
             @ [MOSFET (''ho_err'' @ idx2 h k) ''vdd''
                  (map error_node [0..<num_outputs] ! k)
                  (cells_table ''ho'' ''_fast'' num_hidden num_outputs ! h ! k)
                  gnd ''nmos_learn'']"
    by (auto simp: ho_synapse_def Let_def split_beta add_elements_def add_model_def
        rc1_def rc2_def)
  show ?thesis
    apply (intro exI conjI)
     apply (rule cell)
    apply (rule eq)
    done
qed

lemma ih_synapse_mono:
  assumes "ih_synapse num_inputs num_hidden num_outputs m pos st = Inr st'"
  shows "set (elements (fst st)) \<subseteq> set (elements (fst st'))"
proof -
  obtain i h c r c' r' where "pos = (i, h)" "st = (c, r)" "st' = (c', r')"
    by (cases pos, cases st, cases st') auto
  with ih_synapse_elements [of num_inputs num_hidden num_outputs m i h c r c' r'] assms
  show ?thesis by auto
qed

lemma ho_synapse_mono:
  assumes "ho_synapse num_hidden num_outputs m pos st = Inr st'"
  shows "set (elements (fst st)) \<subseteq> set (elements (fst st'))"
proof -
  obtain h k c r c' r' where "pos = (h, k)" "st = (c, r)" "st' = (c', r')"
    by (cases pos, cases st, cases st') auto
  with ho_synapse_elements [of num_hidden num_outputs m h k c r c' r'] assms
  show ?thesis by auto
qed

lemma for_loop_mono:
  assumes "for_loop body xs s = Inr s'"
    and "\<And>x t t'. body x t = Inr t' \<Longrightarrow> set (elements (fst t)) \<subseteq> set (elements (fst t'))"
  shows "set (elements (fst s)) \<subseteq> set (elements (fst s'))"
  by (rule for_loop_invariant
        [OF assms(1), where P = "\<lambda>t. set (elements (fst s)) \<subseteq> set (elements (fst t))"])
     (use assms(2) in blast)+


lemma has_capacitor_mono:
  "set (elements c) \<subseteq> set (elements c') \<Longrightarrow> has_capacitor_to_gnd c n \<Longrightarrow>
   has_capacitor_to_gnd c' n"
  by (auto simp: has_capacitor_to_gnd_def list_ex_iff)

lemma has_capacitorI:
  "Capacitor nm n gnd v \<in> set (elements c) \<Longrightarrow> has_capacitor_to_gnd c n"
  by (auto simp: has_capacitor_to_gnd_def list_ex_iff is_capacitor_to_gnd_def
      intro!: bexI [of _ "Capacitor nm n gnd v"])

lemma has_resistorI:
  "Resistor nm n gnd v \<in> set (elements c) \<Longrightarrow> has_resistor_to_gnd c n"
  by (auto simp: has_resistor_to_gnd_def list_ex_iff is_resistor_to_gnd_def
      intro!: bexI [of _ "Resistor nm n gnd v"])

lemma has_sourceI:
  "VoltageSource nm n gnd v \<in> set (elements c) \<Longrightarrow> has_source_to_gnd c n"
  by (auto simp: has_source_to_gnd_def list_ex_iff is_source_to_gnd_def
      intro!: bexI [of _ "VoltageSource nm n gnd v"])

lemma base_elements_layer_caps:
  "n \<in> set (map input_node [0..<num_inputs]) \<union> set (map hidden_node [0..<num_hidden])
       \<union> set (map output_node [0..<num_outputs]) \<Longrightarrow>
   Capacitor (n @ ''_cap'') n gnd (100 / 10 ^ 15)
     \<in> set (base_elements num_inputs num_hidden num_outputs)"
  by (auto simp: base_elements_def Let_def)

lemma base_elements_error_pulldown:
  "k < num_outputs \<Longrightarrow>
   Resistor (''verror_'' @ str_nat k @ ''_pulldown'') (error_node k) gnd (10 * 10 ^ 6)
     \<in> set (base_elements num_inputs num_hidden num_outputs)"
  by (auto simp: base_elements_def Let_def intro!: bexI [of _ k])

lemma base_elements_neighbor_source:
  "VoltageSource ''neighbor_mod'' ''v_neighbor_modulate'' gnd 0
     \<in> set (base_elements num_inputs num_hidden num_outputs)"
  by (simp add: base_elements_def Let_def)

lemma synapse_elements_caps:
  "Capacitor (''ac_'' @ layer @ ''_fast'' @ idx2 a b) fast_node gnd c_f
      \<in> set (synapse_elements layer a b cell fast_node slow_node pre post drain r_f c_f r_s c_s)"
  "Capacitor (''ac_'' @ layer @ ''_slow'' @ idx2 a b) slow_node gnd c_s
      \<in> set (synapse_elements layer a b cell fast_node slow_node pre post drain r_f c_f r_s c_s)"
  by (simp_all add: synapse_elements_def)

lemma synapse_elements_leak_ctrl:
  "MOSFET (layer @ ''_leak_ctrl'' @ idx2 a b) drain fast_node ''v_neighbor_modulate'' gnd
     ''nmos_leak_ctrl''
     \<in> set (synapse_elements layer a b CELL_TYPE_DRAM_NEIGHBOR_CTRL_LEAKY fast_node slow_node
              pre post drain r_f c_f r_s c_s)"
  by (simp add: synapse_elements_def)


lemma build_circuit_unfold:
  assumes "build_circuit_for_learning num_inputs num_hidden num_outputs ih ho step r = Inr (net, r')"
  obtains st1 where
    "for_loop (ih_synapse num_inputs num_hidden num_outputs ih)
       (List.product [0..<num_inputs] [0..<num_hidden])
       (base_circuit num_inputs num_hidden num_outputs step, r) = Inr st1"
    "for_loop (ho_synapse num_hidden num_outputs ho)
       (List.product [0..<num_hidden] [0..<num_outputs]) st1 = Inr (circuit net, r')"
    "input_nodes net = map input_node [0..<num_inputs]"
    "hidden_nodes net = map hidden_node [0..<num_hidden]"
    "output_nodes net = map output_node [0..<num_outputs]"
    "error_nodes net = map error_node [0..<num_outputs]"
    "ih_cells_fast net = cells_table ''ih'' ''_fast'' num_inputs num_hidden"
    "ih_cells_slow net = cells_table ''ih'' ''_slow'' num_inputs num_hidden"
    "ho_cells_fast net = cells_table ''ho'' ''_fast'' num_hidden num_outputs"
    "ho_cells_slow net = cells_table ''ho'' ''_slow'' num_hidden num_outputs"
  using assms unfolding build_circuit_for_learning_def
  by (auto split: sum.splits prod.splits)

lemma ih_loop_mono:
  assumes "for_loop (ih_synapse num_inputs num_hidden num_outputs m) xs s = Inr s'"
  shows "set (elements (fst s)) \<subseteq> set (elements (fst s'))"
  by (rule for_loop_mono [OF assms]) (rule ih_synapse_mono)

lemma ho_loop_mono:
  assumes "for_loop (ho_synapse num_hidden num_outputs m) xs s = Inr s'"
  shows "set (elements (fst s)) \<subseteq> set (elements (fst s'))"
  by (rule for_loop_mono [OF assms]) (rule ho_synapse_mono)

lemma ih_synapse_adds_caps:
  assumes "ih_synapse num_inputs num_hidden num_outputs m pos st = Inr st'"
  shows "has_capacitor_to_gnd (fst st')
           (cells_table ''ih'' ''_fast'' num_inputs num_hidden ! fst pos ! snd pos) \<and>
         has_capacitor_to_gnd (fst st')
           (cells_table ''ih'' ''_slow'' num_inputs num_hidden ! fst pos ! snd pos)"
proof -
  obtain i h c r c' r' where eqs: "pos = (i, h)" "st = (c, r)" "st' = (c', r')"
    by (cases pos, cases st, cases st') auto
  from ih_synapse_elements [of num_inputs num_hidden num_outputs m i h c r c' r'] assms eqs
  obtain cell r_f c_f r_s c_s xs where
    els: "elements c' = elements c
             @ synapse_elements ''ih'' i h cell
                 (cells_table ''ih'' ''_fast'' num_inputs num_hidden ! i ! h)
                 (cells_table ''ih'' ''_slow'' num_inputs num_hidden ! i ! h)
                 (map input_node [0..<num_inputs] ! i) (map hidden_node [0..<num_hidden] ! h)
                 ''vdd'' r_f c_f r_s c_s @ xs"
    by auto
  have sub: "set (synapse_elements ''ih'' i h cell
                 (cells_table ''ih'' ''_fast'' num_inputs num_hidden ! i ! h)
                 (cells_table ''ih'' ''_slow'' num_inputs num_hidden ! i ! h)
                 (map input_node [0..<num_inputs] ! i) (map hidden_node [0..<num_hidden] ! h)
                 ''vdd'' r_f c_f r_s c_s) \<subseteq> set (elements c')"
    unfolding els set_append by blast
  have "has_capacitor_to_gnd c' (cells_table ''ih'' ''_fast'' num_inputs num_hidden ! i ! h)"
    by (rule has_capacitorI [OF subsetD [OF sub synapse_elements_caps(1)]])
  moreover
  have "has_capacitor_to_gnd c' (cells_table ''ih'' ''_slow'' num_inputs num_hidden ! i ! h)"
    by (rule has_capacitorI [OF subsetD [OF sub synapse_elements_caps(2)]])
  ultimately show ?thesis by (simp add: eqs)
qed

lemma ho_synapse_adds_caps:
  assumes "ho_synapse num_hidden num_outputs m pos st = Inr st'"
  shows "has_capacitor_to_gnd (fst st')
           (cells_table ''ho'' ''_fast'' num_hidden num_outputs ! fst pos ! snd pos) \<and>
         has_capacitor_to_gnd (fst st')
           (cells_table ''ho'' ''_slow'' num_hidden num_outputs ! fst pos ! snd pos)"
proof -
  obtain h k c r c' r' where eqs: "pos = (h, k)" "st = (c, r)" "st' = (c', r')"
    by (cases pos, cases st, cases st') auto
  from ho_synapse_elements [of num_hidden num_outputs m h k c r c' r'] assms eqs
  obtain cell r_f c_f r_s c_s xs where
    els: "elements c' = elements c
             @ synapse_elements ''ho'' h k cell
                 (cells_table ''ho'' ''_fast'' num_hidden num_outputs ! h ! k)
                 (cells_table ''ho'' ''_slow'' num_hidden num_outputs ! h ! k)
                 (map hidden_node [0..<num_hidden] ! h) (map output_node [0..<num_outputs] ! k)
                 (cells_table ''ho'' ''_fast'' num_hidden num_outputs ! h ! k)
                 r_f c_f r_s c_s @ xs"
    by auto
  have sub: "set (synapse_elements ''ho'' h k cell
                 (cells_table ''ho'' ''_fast'' num_hidden num_outputs ! h ! k)
                 (cells_table ''ho'' ''_slow'' num_hidden num_outputs ! h ! k)
                 (map hidden_node [0..<num_hidden] ! h) (map output_node [0..<num_outputs] ! k)
                 (cells_table ''ho'' ''_fast'' num_hidden num_outputs ! h ! k)
                 r_f c_f r_s c_s) \<subseteq> set (elements c')"
    unfolding els set_append by blast
  have "has_capacitor_to_gnd c' (cells_table ''ho'' ''_fast'' num_hidden num_outputs ! h ! k)"
    by (rule has_capacitorI [OF subsetD [OF sub synapse_elements_caps(1)]])
  moreover
  have "has_capacitor_to_gnd c' (cells_table ''ho'' ''_slow'' num_hidden num_outputs ! h ! k)"
    by (rule has_capacitorI [OF subsetD [OF sub synapse_elements_caps(2)]])
  ultimately show ?thesis by (simp add: eqs)
qed

lemma cells_table_nth:
  "a < rows \<Longrightarrow> b < cols \<Longrightarrow> cells_table layer kind rows cols ! a ! b = syn_node layer a b kind"
  by (simp add: cells_table_def)

lemma set_cells_table:
  "n \<in> set (concat (cells_table layer kind rows cols)) \<longleftrightarrow>
   (\<exists>a<rows. \<exists>b<cols. n = cells_table layer kind rows cols ! a ! b)"
proof
  assume "n \<in> set (concat (cells_table layer kind rows cols))"
  then obtain a b where ab: "a < rows" "b < cols" and n: "n = syn_node layer a b kind"
    by (auto simp: cells_table_def)
  from ab n have "n = cells_table layer kind rows cols ! a ! b" by (simp add: cells_table_nth)
  with ab show "\<exists>a<rows. \<exists>b<cols. n = cells_table layer kind rows cols ! a ! b" by blast
next
  assume "\<exists>a<rows. \<exists>b<cols. n = cells_table layer kind rows cols ! a ! b"
  then obtain a b where ab: "a < rows" "b < cols" and n: "n = syn_node layer a b kind"
    by (auto simp: cells_table_nth)
  have "map (\<lambda>b. syn_node layer a b kind) [0..<cols] \<in> set (cells_table layer kind rows cols)"
    unfolding cells_table_def using ab(1) by (auto intro!: image_eqI [where x = a])
  moreover have "n \<in> set (map (\<lambda>b. syn_node layer a b kind) [0..<cols])"
    using ab(2) n by simp
  ultimately show "n \<in> set (concat (cells_table layer kind rows cols))"
    unfolding set_concat by blast
qed

lemma ih_synapse_adds_leak_ctrl:
  assumes "ih_synapse num_inputs num_hidden num_outputs m pos st = Inr st'"
    and "m ! fst pos ! snd pos = CELL_TYPE_DRAM_NEIGHBOR_CTRL_LEAKY"
  shows "MOSFET (''ih'' @ ''_leak_ctrl'' @ idx2 (fst pos) (snd pos)) ''vdd''
           (cells_table ''ih'' ''_fast'' num_inputs num_hidden ! fst pos ! snd pos)
           ''v_neighbor_modulate'' gnd ''nmos_leak_ctrl'' \<in> set (elements (fst st'))"
proof -
  obtain i h c r c' r' where eqs: "pos = (i, h)" "st = (c, r)" "st' = (c', r')"
    by (cases pos, cases st, cases st') auto
  from ih_synapse_elements [of num_inputs num_hidden num_outputs m i h c r c' r'] assms(1) eqs
  obtain cell r_f c_f r_s c_s xs where
    cell: "get_cell m i h = Inr cell" and
    els: "elements c' = elements c
             @ synapse_elements ''ih'' i h cell
                 (cells_table ''ih'' ''_fast'' num_inputs num_hidden ! i ! h)
                 (cells_table ''ih'' ''_slow'' num_inputs num_hidden ! i ! h)
                 (map input_node [0..<num_inputs] ! i) (map hidden_node [0..<num_hidden] ! h)
                 ''vdd'' r_f c_f r_s c_s @ xs"
    by auto
  from cell assms(2) eqs have c: "cell = CELL_TYPE_DRAM_NEIGHBOR_CTRL_LEAKY"
    by (auto simp: get_cell_def split: if_splits)
  have sub: "set (synapse_elements ''ih'' i h cell
                 (cells_table ''ih'' ''_fast'' num_inputs num_hidden ! i ! h)
                 (cells_table ''ih'' ''_slow'' num_inputs num_hidden ! i ! h)
                 (map input_node [0..<num_inputs] ! i) (map hidden_node [0..<num_hidden] ! h)
                 ''vdd'' r_f c_f r_s c_s) \<subseteq> set (elements c')"
    unfolding els set_append by blast
  show ?thesis
    unfolding eqs fst_conv snd_conv
    by (rule subsetD [OF sub [unfolded c] synapse_elements_leak_ctrl])
qed

lemma ho_synapse_adds_leak_ctrl:
  assumes "ho_synapse num_hidden num_outputs m pos st = Inr st'"
    and "m ! fst pos ! snd pos = CELL_TYPE_DRAM_NEIGHBOR_CTRL_LEAKY"
  shows "MOSFET (''ho'' @ ''_leak_ctrl'' @ idx2 (fst pos) (snd pos))
           (cells_table ''ho'' ''_fast'' num_hidden num_outputs ! fst pos ! snd pos)
           (cells_table ''ho'' ''_fast'' num_hidden num_outputs ! fst pos ! snd pos)
           ''v_neighbor_modulate'' gnd ''nmos_leak_ctrl'' \<in> set (elements (fst st'))"
proof -
  obtain h k c r c' r' where eqs: "pos = (h, k)" "st = (c, r)" "st' = (c', r')"
    by (cases pos, cases st, cases st') auto
  from ho_synapse_elements [of num_hidden num_outputs m h k c r c' r'] assms(1) eqs
  obtain cell r_f c_f r_s c_s xs where
    cell: "get_cell m h k = Inr cell" and
    els: "elements c' = elements c
             @ synapse_elements ''ho'' h k cell
                 (cells_table ''ho'' ''_fast'' num_hidden num_outputs ! h ! k)
                 (cells_table ''ho'' ''_slow'' num_hidden num_outputs ! h ! k)
                 (map hidden_node [0..<num_hidden] ! h) (map output_node [0..<num_outputs] ! k)
                 (cells_table ''ho'' ''_fast'' num_hidden num_outputs ! h ! k)
                 r_f c_f r_s c_s @ xs"
    by auto
  from cell assms(2) eqs have c: "cell = CELL_TYPE_DRAM_NEIGHBOR_CTRL_LEAKY"
    by (auto simp: get_cell_def split: if_splits)
  have sub: "set (synapse_elements ''ho'' h k cell
                 (cells_table ''ho'' ''_fast'' num_hidden num_outputs ! h ! k)
                 (cells_table ''ho'' ''_slow'' num_hidden num_outputs ! h ! k)
                 (map hidden_node [0..<num_hidden] ! h) (map output_node [0..<num_outputs] ! k)
                 (cells_table ''ho'' ''_fast'' num_hidden num_outputs ! h ! k)
                 r_f c_f r_s c_s) \<subseteq> set (elements c')"
    unfolding els set_append by blast
  show ?thesis
    unfolding eqs fst_conv snd_conv
    by (rule subsetD [OF sub [unfolded c] synapse_elements_leak_ctrl])
qed

lemma ih_synapse_total:
  assumes "fst pos < length m" "snd pos < length (m ! fst pos)"
  shows "\<exists>st'. ih_synapse num_inputs num_hidden num_outputs m pos st = Inr st'"
  using assms
  by (cases pos, cases st) (simp add: ih_synapse_def get_cell_def Let_def split_beta)

lemma ho_synapse_total:
  assumes "fst pos < length m" "snd pos < length (m ! fst pos)"
  shows "\<exists>st'. ho_synapse num_hidden num_outputs m pos st = Inr st'"
  using assms
  by (cases pos, cases st) (simp add: ho_synapse_def get_cell_def Let_def split_beta)

lemma build_circuit_returns:
  assumes "length ih = num_inputs" "\<forall>row\<in>set ih. length row = num_hidden"
    and "length ho = num_hidden" "\<forall>row\<in>set ho. length row = num_outputs"
  shows "\<exists>net r'. build_circuit_for_learning num_inputs num_hidden num_outputs ih ho step r
                     = Inr (net, r')"
proof -
  have "\<exists>st1. for_loop (ih_synapse num_inputs num_hidden num_outputs ih)
       (List.product [0..<num_inputs] [0..<num_hidden])
       (base_circuit num_inputs num_hidden num_outputs step, r) = Inr st1"
    by (rule for_loop_total, rule ih_synapse_total) (use assms(1,2) in auto)
  then obtain st1 where l1: "for_loop (ih_synapse num_inputs num_hidden num_outputs ih)
       (List.product [0..<num_inputs] [0..<num_hidden])
       (base_circuit num_inputs num_hidden num_outputs step, r) = Inr st1" ..
  have "\<exists>st2. for_loop (ho_synapse num_hidden num_outputs ho)
       (List.product [0..<num_hidden] [0..<num_outputs]) st1 = Inr st2"
    by (rule for_loop_total, rule ho_synapse_total) (use assms(3,4) in auto)
  then obtain c r' where "for_loop (ho_synapse num_hidden num_outputs ho)
       (List.product [0..<num_hidden] [0..<num_outputs]) st1 = Inr (c, r')"
    by (metis surj_pair)
  with l1 show ?thesis by (simp add: build_circuit_for_learning_def)
qed

lemma names_0_0:
  "input_node 0 = ''input_0''" "error_node 0 = ''error_0''"
  "syn_node ''ih'' 0 0 ''_fast'' = ''ih_syn_0_0_fast''"
  "syn_node ''ho'' 0 0 ''_fast'' = ''ho_syn_0_0_fast''"
  "idx2 0 0 = ''_0_0''"
  by (simp_all add: input_node_def error_node_def syn_node_def idx2_def str_nat.simps)

lemmas build_eval =
  build_circuit_for_learning_def ih_synapse_def ho_synapse_def synapse_elements_def
  base_circuit_def base_elements_def get_cell_def randomize_rc_def random_normal_def
  random_rand_def next_float_def add_elements_def add_model_def cells_table_def
  syn_node_def idx2_def input_node_def hidden_node_def output_node_def error_node_def
  str_nat.simps Let_def split_beta

text \<open>
  C3. Every circuit the builder returns has a capacitor to ground on every input, hidden
  and output node and on every fast and slow storage node of both layer pairs. The
  auxiliary nodes are tied to ground by other elements: each error node by its pull-down
  resistor, the neighbour-modulation node by its voltage source.
\<close>

theorem build_circuit_capacitors:
  assumes "build_circuit_for_learning num_inputs num_hidden num_outputs ih ho step r = Inr (net, r')"
  shows "(\<forall>n\<in>set (input_nodes net) \<union> set (hidden_nodes net) \<union> set (output_nodes net).
            has_capacitor_to_gnd (circuit net) n) \<and>
         (\<forall>n\<in>set (concat (ih_cells_fast net)) \<union> set (concat (ih_cells_slow net))
              \<union> set (concat (ho_cells_fast net)) \<union> set (concat (ho_cells_slow net)).
            has_capacitor_to_gnd (circuit net) n) \<and>
         (\<forall>n\<in>set (error_nodes net). has_resistor_to_gnd (circuit net) n) \<and>
         has_source_to_gnd (circuit net) ''v_neighbor_modulate''"
proof -
  from assms obtain st1 where
    l1: "for_loop (ih_synapse num_inputs num_hidden num_outputs ih)
       (List.product [0..<num_inputs] [0..<num_hidden])
       (base_circuit num_inputs num_hidden num_outputs step, r) = Inr st1"
    and l2: "for_loop (ho_synapse num_hidden num_outputs ho)
       (List.product [0..<num_hidden] [0..<num_outputs]) st1 = Inr (circuit net, r')"
    and nodes: "input_nodes net = map input_node [0..<num_inputs]"
      "hidden_nodes net = map hidden_node [0..<num_hidden]"
      "output_nodes net = map output_node [0..<num_outputs]"
      "error_nodes net = map error_node [0..<num_outputs]"
    and tabs: "ih_cells_fast net = cells_table ''ih'' ''_fast'' num_inputs num_hidden"
      "ih_cells_slow net = cells_table ''ih'' ''_slow'' num_inputs num_hidden"
      "ho_cells_fast net = cells_table ''ho'' ''_fast'' num_hidden num_outputs"
      "ho_cells_slow net = cells_table ''ho'' ''_slow'' num_hidden num_outputs"
    by (rule build_circuit_unfold)
  have m1: "set (base_elements num_inputs num_hidden num_outputs) \<subseteq> set (elements (fst st1))"
    using ih_loop_mono [OF l1] by (simp add: base_circuit_def)
  have m2: "set (elements (fst st1)) \<subseteq> set (elements (circuit net))"
    using ho_loop_mono [OF l2] by simp
  have base: "set (base_elements num_inputs num_hidden num_outputs) \<subseteq> set (elements (circuit net))"
    using m1 m2 by blast
  have layer: "\<forall>n\<in>set (input_nodes net) \<union> set (hidden_nodes net) \<union> set (output_nodes net).
            has_capacitor_to_gnd (circuit net) n"
  proof
    fix n assume "n \<in> set (input_nodes net) \<union> set (hidden_nodes net) \<union> set (output_nodes net)"
    then have "Capacitor (n @ ''_cap'') n gnd (100 / 10 ^ 15)
                 \<in> set (base_elements num_inputs num_hidden num_outputs)"
      unfolding nodes by (rule base_elements_layer_caps)
    with base show "has_capacitor_to_gnd (circuit net) n"
      by (blast intro: has_capacitorI)
  qed
  have ihq: "\<forall>pos\<in>set (List.product [0..<num_inputs] [0..<num_hidden]).
          has_capacitor_to_gnd (fst st1)
            (cells_table ''ih'' ''_fast'' num_inputs num_hidden ! fst pos ! snd pos) \<and>
          has_capacitor_to_gnd (fst st1)
            (cells_table ''ih'' ''_slow'' num_inputs num_hidden ! fst pos ! snd pos)"
    by (rule for_loop_establishes [OF l1])
       (auto dest: ih_synapse_adds_caps ih_synapse_mono intro: has_capacitor_mono)
  have hoq: "\<forall>pos\<in>set (List.product [0..<num_hidden] [0..<num_outputs]).
          has_capacitor_to_gnd (circuit net)
            (cells_table ''ho'' ''_fast'' num_hidden num_outputs ! fst pos ! snd pos) \<and>
          has_capacitor_to_gnd (circuit net)
            (cells_table ''ho'' ''_slow'' num_hidden num_outputs ! fst pos ! snd pos)"
    using for_loop_establishes [OF l2, where Q = "\<lambda>pos st.
          has_capacitor_to_gnd (fst st)
            (cells_table ''ho'' ''_fast'' num_hidden num_outputs ! fst pos ! snd pos) \<and>
          has_capacitor_to_gnd (fst st)
            (cells_table ''ho'' ''_slow'' num_hidden num_outputs ! fst pos ! snd pos)"]
    by (auto dest: ho_synapse_adds_caps ho_synapse_mono intro: has_capacitor_mono)
  have storage: "\<forall>n\<in>set (concat (ih_cells_fast net)) \<union> set (concat (ih_cells_slow net))
              \<union> set (concat (ho_cells_fast net)) \<union> set (concat (ho_cells_slow net)).
            has_capacitor_to_gnd (circuit net) n"
  proof
    fix n assume "n \<in> set (concat (ih_cells_fast net)) \<union> set (concat (ih_cells_slow net))
              \<union> set (concat (ho_cells_fast net)) \<union> set (concat (ho_cells_slow net))"
    then consider
      (a) i h where "i < num_inputs" "h < num_hidden"
          "n = cells_table ''ih'' ''_fast'' num_inputs num_hidden ! i ! h"
      | (b) i h where "i < num_inputs" "h < num_hidden"
          "n = cells_table ''ih'' ''_slow'' num_inputs num_hidden ! i ! h"
      | (c) h k where "h < num_hidden" "k < num_outputs"
          "n = cells_table ''ho'' ''_fast'' num_hidden num_outputs ! h ! k"
      | (d) h k where "h < num_hidden" "k < num_outputs"
          "n = cells_table ''ho'' ''_slow'' num_hidden num_outputs ! h ! k"
      unfolding tabs set_cells_table Un_iff by blast
    then show "has_capacitor_to_gnd (circuit net) n"
    proof cases
      case a
      then have "(i, h) \<in> set (List.product [0..<num_inputs] [0..<num_hidden])" by simp
      with ihq a(3) have "has_capacitor_to_gnd (fst st1) n" by fastforce
      then show ?thesis by (rule has_capacitor_mono [OF m2])
    next
      case b
      then have "(i, h) \<in> set (List.product [0..<num_inputs] [0..<num_hidden])" by simp
      with ihq b(3) have "has_capacitor_to_gnd (fst st1) n" by fastforce
      then show ?thesis by (rule has_capacitor_mono [OF m2])
    next
      case c
      then have "(h, k) \<in> set (List.product [0..<num_hidden] [0..<num_outputs])" by simp
      with hoq c(3) show ?thesis by fastforce
    next
      case d
      then have "(h, k) \<in> set (List.product [0..<num_hidden] [0..<num_outputs])" by simp
      with hoq d(3) show ?thesis by fastforce
    qed
  qed
  have err: "\<forall>n\<in>set (error_nodes net). has_resistor_to_gnd (circuit net) n"
  proof
    fix n assume "n \<in> set (error_nodes net)"
    then obtain k where k: "k < num_outputs" "n = error_node k" unfolding nodes by auto
    from base_elements_error_pulldown [OF k(1), of num_inputs num_hidden] base k(2)
    show "has_resistor_to_gnd (circuit net) n" by (blast intro: has_resistorI)
  qed
  have src: "has_source_to_gnd (circuit net) ''v_neighbor_modulate''"
    using base_elements_neighbor_source [of num_inputs num_hidden num_outputs] base
    by (blast intro: has_sourceI)
  from layer storage err src show ?thesis by blast
qed

theorem build_circuit_capacitors_witness:
  "\<exists>net r'.
     build_circuit_for_learning 1 1 1 [[CELL_TYPE_SRAM]] [[CELL_TYPE_SRAM]] 0
       \<lparr>raw_ints = \<lambda>n. 0, raw_floats = \<lambda>n. 0\<rparr> = Inr (net, r') \<and>
     ''input_0'' \<in> set (input_nodes net) \<and>
     has_capacitor_to_gnd (circuit net) ''input_0'' \<and>
     ''ih_syn_0_0_fast'' \<in> set (concat (ih_cells_fast net)) \<and>
     has_capacitor_to_gnd (circuit net) ''ih_syn_0_0_fast'' \<and>
     ''error_0'' \<in> set (error_nodes net) \<and>
     has_resistor_to_gnd (circuit net) ''error_0''"
proof -
  obtain net r' where
    b: "build_circuit_for_learning 1 1 1 [[CELL_TYPE_SRAM]] [[CELL_TYPE_SRAM]] 0
          \<lparr>raw_ints = \<lambda>n. 0, raw_floats = \<lambda>n. 0\<rparr> = Inr (net, r')"
    using build_circuit_returns [of "[[CELL_TYPE_SRAM]]" 1 1 "[[CELL_TYPE_SRAM]]" 1 0
            "\<lparr>raw_ints = \<lambda>n. 0, raw_floats = \<lambda>n. 0\<rparr>"]
    by auto
  from b have n1: "''input_0'' \<in> set (input_nodes net)"
    and n2: "''ih_syn_0_0_fast'' \<in> set (concat (ih_cells_fast net))"
    and n3: "''error_0'' \<in> set (error_nodes net)"
    by (auto elim!: build_circuit_unfold simp: cells_table_def names_0_0)
  from build_circuit_capacitors [OF b] n1 n2 n3
  have "has_capacitor_to_gnd (circuit net) ''input_0'' \<and>
        has_capacitor_to_gnd (circuit net) ''ih_syn_0_0_fast'' \<and>
        has_resistor_to_gnd (circuit net) ''error_0''"
    by (simp only: Un_iff ball_Un)
  with b n1 n2 n3 show ?thesis by (intro exI conjI) (assumption | elim conjE)+
qed

text \<open>
  The error nodes and the neighbour-modulation node have no capacitor: in the circuit for
  one input, one hidden and one output neuron, neither \<open>error_0\<close> nor
  \<open>v_neighbor_modulate\<close> is the node of a capacitor to ground.
\<close>

theorem build_circuit_error_node_no_capacitor:
  "''error_0'' \<in> set (error_nodes (fst (projr (build_circuit_for_learning 1 1 1
      [[CELL_TYPE_SRAM]] [[CELL_TYPE_SRAM]] 0 \<lparr>raw_ints = \<lambda>n. 0, raw_floats = \<lambda>n. 0\<rparr>)))) \<and>
   \<not> has_capacitor_to_gnd (circuit (fst (projr (build_circuit_for_learning 1 1 1
      [[CELL_TYPE_SRAM]] [[CELL_TYPE_SRAM]] 0 \<lparr>raw_ints = \<lambda>n. 0, raw_floats = \<lambda>n. 0\<rparr>))))
      ''error_0'' \<and>
   \<not> has_capacitor_to_gnd (circuit (fst (projr (build_circuit_for_learning 1 1 1
      [[CELL_TYPE_SRAM]] [[CELL_TYPE_SRAM]] 0 \<lparr>raw_ints = \<lambda>n. 0, raw_floats = \<lambda>n. 0\<rparr>))))
      ''v_neighbor_modulate''"
  by (simp add: build_eval has_capacitor_to_gnd_def is_capacitor_to_gnd_def gnd_def)

text \<open>
  The \<open>leak_ctrl\<close> MOSFET of every DRAM-Neighbor-Controlled synapse, terminal by terminal
  in the order drain, gate, source, bulk.
\<close>

lemma build_circuit_leak_ctrl_elements:
  assumes "build_circuit_for_learning num_inputs num_hidden num_outputs ih ho step r = Inr (net, r')"
  shows "(\<forall>i<num_inputs. \<forall>h<num_hidden.
            ih ! i ! h = CELL_TYPE_DRAM_NEIGHBOR_CTRL_LEAKY \<longrightarrow>
            MOSFET (''ih'' @ ''_leak_ctrl'' @ idx2 i h) ''vdd'' (ih_cells_fast net ! i ! h)
              ''v_neighbor_modulate'' gnd ''nmos_leak_ctrl'' \<in> set (elements (circuit net))) \<and>
         (\<forall>h<num_hidden. \<forall>k<num_outputs.
            ho ! h ! k = CELL_TYPE_DRAM_NEIGHBOR_CTRL_LEAKY \<longrightarrow>
            MOSFET (''ho'' @ ''_leak_ctrl'' @ idx2 h k) (ho_cells_fast net ! h ! k)
              (ho_cells_fast net ! h ! k)
              ''v_neighbor_modulate'' gnd ''nmos_leak_ctrl'' \<in> set (elements (circuit net)))"
proof -
  from assms obtain st1 where
    l1: "for_loop (ih_synapse num_inputs num_hidden num_outputs ih)
       (List.product [0..<num_inputs] [0..<num_hidden])
       (base_circuit num_inputs num_hidden num_outputs step, r) = Inr st1"
    and l2: "for_loop (ho_synapse num_hidden num_outputs ho)
       (List.product [0..<num_hidden] [0..<num_outputs]) st1 = Inr (circuit net, r')"
    and tabs: "ih_cells_fast net = cells_table ''ih'' ''_fast'' num_inputs num_hidden"
      "ho_cells_fast net = cells_table ''ho'' ''_fast'' num_hidden num_outputs"
    by (rule build_circuit_unfold)
  have m2: "set (elements (fst st1)) \<subseteq> set (elements (circuit net))"
    using ho_loop_mono [OF l2] by simp
  have ihq: "\<forall>pos\<in>set (List.product [0..<num_inputs] [0..<num_hidden]).
          ih ! fst pos ! snd pos = CELL_TYPE_DRAM_NEIGHBOR_CTRL_LEAKY \<longrightarrow>
          MOSFET (''ih'' @ ''_leak_ctrl'' @ idx2 (fst pos) (snd pos)) ''vdd''
            (cells_table ''ih'' ''_fast'' num_inputs num_hidden ! fst pos ! snd pos)
            ''v_neighbor_modulate'' gnd ''nmos_leak_ctrl'' \<in> set (elements (fst st1))"
  proof (rule for_loop_establishes [OF l1])
    fix x t t'
    assume "ih_synapse num_inputs num_hidden num_outputs ih x t = Inr t'"
    then show "ih ! fst x ! snd x = CELL_TYPE_DRAM_NEIGHBOR_CTRL_LEAKY \<longrightarrow>
          MOSFET (''ih'' @ ''_leak_ctrl'' @ idx2 (fst x) (snd x)) ''vdd''
            (cells_table ''ih'' ''_fast'' num_inputs num_hidden ! fst x ! snd x)
            ''v_neighbor_modulate'' gnd ''nmos_leak_ctrl'' \<in> set (elements (fst t'))"
      by (blast intro: ih_synapse_adds_leak_ctrl)
  next
    fix x y t t'
    assume "ih_synapse num_inputs num_hidden num_outputs ih y t = Inr t'"
      and "ih ! fst x ! snd x = CELL_TYPE_DRAM_NEIGHBOR_CTRL_LEAKY \<longrightarrow>
          MOSFET (''ih'' @ ''_leak_ctrl'' @ idx2 (fst x) (snd x)) ''vdd''
            (cells_table ''ih'' ''_fast'' num_inputs num_hidden ! fst x ! snd x)
            ''v_neighbor_modulate'' gnd ''nmos_leak_ctrl'' \<in> set (elements (fst t))"
    then show "ih ! fst x ! snd x = CELL_TYPE_DRAM_NEIGHBOR_CTRL_LEAKY \<longrightarrow>
          MOSFET (''ih'' @ ''_leak_ctrl'' @ idx2 (fst x) (snd x)) ''vdd''
            (cells_table ''ih'' ''_fast'' num_inputs num_hidden ! fst x ! snd x)
            ''v_neighbor_modulate'' gnd ''nmos_leak_ctrl'' \<in> set (elements (fst t'))"
      using ih_synapse_mono by blast
  qed
  have hoq: "\<forall>pos\<in>set (List.product [0..<num_hidden] [0..<num_outputs]).
          ho ! fst pos ! snd pos = CELL_TYPE_DRAM_NEIGHBOR_CTRL_LEAKY \<longrightarrow>
          MOSFET (''ho'' @ ''_leak_ctrl'' @ idx2 (fst pos) (snd pos))
            (cells_table ''ho'' ''_fast'' num_hidden num_outputs ! fst pos ! snd pos)
            (cells_table ''ho'' ''_fast'' num_hidden num_outputs ! fst pos ! snd pos)
            ''v_neighbor_modulate'' gnd ''nmos_leak_ctrl'' \<in> set (elements (fst (circuit net, r')))"
  proof (rule for_loop_establishes [OF l2])
    fix x t t'
    assume "ho_synapse num_hidden num_outputs ho x t = Inr t'"
    then show "ho ! fst x ! snd x = CELL_TYPE_DRAM_NEIGHBOR_CTRL_LEAKY \<longrightarrow>
          MOSFET (''ho'' @ ''_leak_ctrl'' @ idx2 (fst x) (snd x))
            (cells_table ''ho'' ''_fast'' num_hidden num_outputs ! fst x ! snd x)
            (cells_table ''ho'' ''_fast'' num_hidden num_outputs ! fst x ! snd x)
            ''v_neighbor_modulate'' gnd ''nmos_leak_ctrl'' \<in> set (elements (fst t'))"
      by (blast intro: ho_synapse_adds_leak_ctrl)
  next
    fix x y t t'
    assume "ho_synapse num_hidden num_outputs ho y t = Inr t'"
      and "ho ! fst x ! snd x = CELL_TYPE_DRAM_NEIGHBOR_CTRL_LEAKY \<longrightarrow>
          MOSFET (''ho'' @ ''_leak_ctrl'' @ idx2 (fst x) (snd x))
            (cells_table ''ho'' ''_fast'' num_hidden num_outputs ! fst x ! snd x)
            (cells_table ''ho'' ''_fast'' num_hidden num_outputs ! fst x ! snd x)
            ''v_neighbor_modulate'' gnd ''nmos_leak_ctrl'' \<in> set (elements (fst t))"
    then show "ho ! fst x ! snd x = CELL_TYPE_DRAM_NEIGHBOR_CTRL_LEAKY \<longrightarrow>
          MOSFET (''ho'' @ ''_leak_ctrl'' @ idx2 (fst x) (snd x))
            (cells_table ''ho'' ''_fast'' num_hidden num_outputs ! fst x ! snd x)
            (cells_table ''ho'' ''_fast'' num_hidden num_outputs ! fst x ! snd x)
            ''v_neighbor_modulate'' gnd ''nmos_leak_ctrl'' \<in> set (elements (fst t'))"
      using ho_synapse_mono by blast
  qed
  have a: "\<forall>i<num_inputs. \<forall>h<num_hidden.
            ih ! i ! h = CELL_TYPE_DRAM_NEIGHBOR_CTRL_LEAKY \<longrightarrow>
            MOSFET (''ih'' @ ''_leak_ctrl'' @ idx2 i h) ''vdd'' (ih_cells_fast net ! i ! h)
              ''v_neighbor_modulate'' gnd ''nmos_leak_ctrl'' \<in> set (elements (circuit net))"
  proof (intro allI impI)
    fix i h assume ih: "i < num_inputs" "h < num_hidden"
      and nc: "ih ! i ! h = CELL_TYPE_DRAM_NEIGHBOR_CTRL_LEAKY"
    from ih have "(i, h) \<in> set (List.product [0..<num_inputs] [0..<num_hidden])" by simp
    from bspec [OF ihq this] nc
    have "MOSFET (''ih'' @ ''_leak_ctrl'' @ idx2 i h) ''vdd''
            (cells_table ''ih'' ''_fast'' num_inputs num_hidden ! i ! h)
            ''v_neighbor_modulate'' gnd ''nmos_leak_ctrl'' \<in> set (elements (fst st1))"
      unfolding fst_conv snd_conv by (rule mp)
    then show "MOSFET (''ih'' @ ''_leak_ctrl'' @ idx2 i h) ''vdd'' (ih_cells_fast net ! i ! h)
              ''v_neighbor_modulate'' gnd ''nmos_leak_ctrl'' \<in> set (elements (circuit net))"
      unfolding tabs using m2 by (rule rev_subsetD)
  qed
  have b: "\<forall>h<num_hidden. \<forall>k<num_outputs.
            ho ! h ! k = CELL_TYPE_DRAM_NEIGHBOR_CTRL_LEAKY \<longrightarrow>
            MOSFET (''ho'' @ ''_leak_ctrl'' @ idx2 h k) (ho_cells_fast net ! h ! k)
              (ho_cells_fast net ! h ! k)
              ''v_neighbor_modulate'' gnd ''nmos_leak_ctrl'' \<in> set (elements (circuit net))"
  proof (intro allI impI)
    fix h k assume hk: "h < num_hidden" "k < num_outputs"
      and nc: "ho ! h ! k = CELL_TYPE_DRAM_NEIGHBOR_CTRL_LEAKY"
    from hk have "(h, k) \<in> set (List.product [0..<num_hidden] [0..<num_outputs])" by simp
    from bspec [OF hoq this] nc
    show "MOSFET (''ho'' @ ''_leak_ctrl'' @ idx2 h k) (ho_cells_fast net ! h ! k)
              (ho_cells_fast net ! h ! k)
              ''v_neighbor_modulate'' gnd ''nmos_leak_ctrl'' \<in> set (elements (circuit net))"
      unfolding fst_conv snd_conv tabs by (rule mp)
  qed
  from a b show ?thesis by (rule conjI)
qed

lemma has_neighbor_leak_ctrlI:
  "MOSFET nm drain fast_node ''v_neighbor_modulate'' bulk model \<in> set (elements c) \<Longrightarrow>
   has_neighbor_leak_ctrl c fast_node"
  by (auto simp: has_neighbor_leak_ctrl_def list_ex_iff is_neighbor_leak_ctrl_def
      intro!: bexI [of _ "MOSFET nm drain fast_node ''v_neighbor_modulate'' bulk model"])

lemma init_example_2_1_2:
  "initialize_network_architecture 2 1 2 \<lparr>raw_ints = \<lambda>n. 0, raw_floats = \<lambda>n. 0\<rparr>
     = Inr ([[CELL_TYPE_SRAM], [CELL_TYPE_DRAM_REFRESHED]],
            [[CELL_TYPE_SRAM, CELL_TYPE_DRAM_NEIGHBOR_CTRL_LEAKY]],
            \<lparr>raw_ints = \<lambda>n. 0, raw_floats = \<lambda>n. 0\<rparr>)"
  by (simp add: initialize_network_architecture_def choice_def neighbor_step_ih_def
      neighbor_step_ho_def set_unless_sram_def set_cell_def get_cell_def
      upt_rec numeral_2_eq_2 Let_def)

text \<open>
  C5. For every synapse whose cell type is DRAM-Neighbor-Controlled the circuit contains
  a MOSFET whose source terminal is the shared neighbour-modulation node and whose gate,
  the control terminal, is the synapse's own fast storage node.
\<close>

theorem build_circuit_neighbor_control:
  assumes "build_circuit_for_learning num_inputs num_hidden num_outputs ih ho step r = Inr (net, r')"
  shows "(\<forall>i<num_inputs. \<forall>h<num_hidden.
            ih ! i ! h = CELL_TYPE_DRAM_NEIGHBOR_CTRL_LEAKY \<longrightarrow>
            has_neighbor_leak_ctrl (circuit net) (ih_cells_fast net ! i ! h)) \<and>
         (\<forall>h<num_hidden. \<forall>k<num_outputs.
            ho ! h ! k = CELL_TYPE_DRAM_NEIGHBOR_CTRL_LEAKY \<longrightarrow>
            has_neighbor_leak_ctrl (circuit net) (ho_cells_fast net ! h ! k))"
proof -
  note els = build_circuit_leak_ctrl_elements [OF assms]
  have a: "\<forall>i<num_inputs. \<forall>h<num_hidden.
            ih ! i ! h = CELL_TYPE_DRAM_NEIGHBOR_CTRL_LEAKY \<longrightarrow>
            has_neighbor_leak_ctrl (circuit net) (ih_cells_fast net ! i ! h)"
  proof (intro allI impI)
    fix i h assume ih: "i < num_inputs" "h < num_hidden"
      and nc: "ih ! i ! h = CELL_TYPE_DRAM_NEIGHBOR_CTRL_LEAKY"
    from els [THEN conjunct1, rule_format, OF ih nc]
    show "has_neighbor_leak_ctrl (circuit net) (ih_cells_fast net ! i ! h)"
      by (rule has_neighbor_leak_ctrlI)
  qed
  have b: "\<forall>h<num_hidden. \<forall>k<num_outputs.
            ho ! h ! k = CELL_TYPE_DRAM_NEIGHBOR_CTRL_LEAKY \<longrightarrow>
            has_neighbor_leak_ctrl (circuit net) (ho_cells_fast net ! h ! k)"
  proof (intro allI impI)
    fix h k assume hk: "h < num_hidden" "k < num_outputs"
      and nc: "ho ! h ! k = CELL_TYPE_DRAM_NEIGHBOR_CTRL_LEAKY"
    from els [THEN conjunct2, rule_format, OF hk nc]
    show "has_neighbor_leak_ctrl (circuit net) (ho_cells_fast net ! h ! k)"
      by (rule has_neighbor_leak_ctrlI)
  qed
  from a b show ?thesis by (rule conjI)
qed

theorem build_circuit_neighbor_control_witness:
  "initialize_network_architecture 2 2 2 \<lparr>raw_ints = \<lambda>n. 0, raw_floats = \<lambda>n. 0\<rparr>
     = Inr ([[CELL_TYPE_SRAM, CELL_TYPE_DRAM_NEIGHBOR_CTRL_LEAKY],
             [CELL_TYPE_DRAM_LEAKY, CELL_TYPE_SRAM]],
            [[CELL_TYPE_SRAM, CELL_TYPE_DRAM_NEIGHBOR_CTRL_LEAKY],
             [CELL_TYPE_DRAM_NEIGHBOR_CTRL_LEAKY, CELL_TYPE_SRAM]],
            \<lparr>raw_ints = \<lambda>n. 0, raw_floats = \<lambda>n. 0\<rparr>) \<and>
   (\<exists>net r'.
     build_circuit_for_learning 2 2 2
       [[CELL_TYPE_SRAM, CELL_TYPE_DRAM_NEIGHBOR_CTRL_LEAKY],
        [CELL_TYPE_DRAM_LEAKY, CELL_TYPE_SRAM]]
       [[CELL_TYPE_SRAM, CELL_TYPE_DRAM_NEIGHBOR_CTRL_LEAKY],
        [CELL_TYPE_DRAM_NEIGHBOR_CTRL_LEAKY, CELL_TYPE_SRAM]] 0
       \<lparr>raw_ints = \<lambda>n. 0, raw_floats = \<lambda>n. 0\<rparr> = Inr (net, r') \<and>
     has_neighbor_leak_ctrl (circuit net) ''ih_syn_0_1_fast'' \<and>
     has_neighbor_leak_ctrl (circuit net) ''ho_syn_0_1_fast'' \<and>
     has_neighbor_leak_ctrl (circuit net) ''ho_syn_1_0_fast'')"
proof -
  let ?ih = "[[CELL_TYPE_SRAM, CELL_TYPE_DRAM_NEIGHBOR_CTRL_LEAKY],
              [CELL_TYPE_DRAM_LEAKY, CELL_TYPE_SRAM]]"
  let ?ho = "[[CELL_TYPE_SRAM, CELL_TYPE_DRAM_NEIGHBOR_CTRL_LEAKY],
              [CELL_TYPE_DRAM_NEIGHBOR_CTRL_LEAKY, CELL_TYPE_SRAM]]"
  obtain net r' where
    b: "build_circuit_for_learning 2 2 2 ?ih ?ho 0 \<lparr>raw_ints = \<lambda>n. 0, raw_floats = \<lambda>n. 0\<rparr> = Inr (net, r')"
    using build_circuit_returns [of ?ih 2 2 ?ho 2 0 "\<lparr>raw_ints = \<lambda>n. 0, raw_floats = \<lambda>n. 0\<rparr>"]
    by auto
  from b have tabs: "ih_cells_fast net = cells_table ''ih'' ''_fast'' 2 2"
      "ho_cells_fast net = cells_table ''ho'' ''_fast'' 2 2"
    by (auto elim!: build_circuit_unfold)
  have t: "ih_cells_fast net ! 0 ! 1 = ''ih_syn_0_1_fast''"
      "ho_cells_fast net ! 0 ! 1 = ''ho_syn_0_1_fast''"
      "ho_cells_fast net ! 1 ! 0 = ''ho_syn_1_0_fast''"
    unfolding tabs by (simp_all add: cells_table_def syn_node_def idx2_def str_nat.simps)
  from build_circuit_neighbor_control [OF b]
  have f: "has_neighbor_leak_ctrl (circuit net) (ih_cells_fast net ! 0 ! 1)"
    "has_neighbor_leak_ctrl (circuit net) (ho_cells_fast net ! 0 ! 1)"
    "has_neighbor_leak_ctrl (circuit net) (ho_cells_fast net ! 1 ! 0)"
    by simp_all
  note g = f [unfolded t]
  from b g have "\<exists>net r'.
     build_circuit_for_learning 2 2 2 ?ih ?ho 0 \<lparr>raw_ints = \<lambda>n. 0, raw_floats = \<lambda>n. 0\<rparr> = Inr (net, r') \<and>
     has_neighbor_leak_ctrl (circuit net) ''ih_syn_0_1_fast'' \<and>
     has_neighbor_leak_ctrl (circuit net) ''ho_syn_0_1_fast'' \<and>
     has_neighbor_leak_ctrl (circuit net) ''ho_syn_1_0_fast''"
    by (intro exI conjI)
  with init_example show ?thesis by (rule conjI)
qed

text \<open>
  The neighbour-modulation node is not a control terminal. The topology drawn for two
  inputs, one hidden neuron and two outputs from the all-zero random source makes the
  hidden-to-output synapse \<open>(0, 1)\<close> DRAM-Neighbor-Controlled, and in the circuit built
  for it no MOSFET has \<open>v_neighbor_modulate\<close> as its gate.
\<close>

theorem build_circuit_neighbor_not_gate:
  "initialize_network_architecture 2 1 2 \<lparr>raw_ints = \<lambda>n. 0, raw_floats = \<lambda>n. 0\<rparr>
     = Inr ([[CELL_TYPE_SRAM], [CELL_TYPE_DRAM_REFRESHED]],
            [[CELL_TYPE_SRAM, CELL_TYPE_DRAM_NEIGHBOR_CTRL_LEAKY]],
            \<lparr>raw_ints = \<lambda>n. 0, raw_floats = \<lambda>n. 0\<rparr>) \<and>
   \<not> has_gate_on (circuit (fst (projr (build_circuit_for_learning 2 1 2
      [[CELL_TYPE_SRAM], [CELL_TYPE_DRAM_REFRESHED]]
      [[CELL_TYPE_SRAM, CELL_TYPE_DRAM_NEIGHBOR_CTRL_LEAKY]] 0
      \<lparr>raw_ints = \<lambda>n. 0, raw_floats = \<lambda>n. 0\<rparr>))))
      ''v_neighbor_modulate''"
proof (rule conjI)
  show "initialize_network_architecture 2 1 2 \<lparr>raw_ints = \<lambda>n. 0, raw_floats = \<lambda>n. 0\<rparr>
     = Inr ([[CELL_TYPE_SRAM], [CELL_TYPE_DRAM_REFRESHED]],
            [[CELL_TYPE_SRAM, CELL_TYPE_DRAM_NEIGHBOR_CTRL_LEAKY]],
            \<lparr>raw_ints = \<lambda>n. 0, raw_floats = \<lambda>n. 0\<rparr>)"
    by (rule init_example_2_1_2)
  show "\<not> has_gate_on (circuit (fst (projr (build_circuit_for_learning 2 1 2
      [[CELL_TYPE_SRAM], [CELL_TYPE_DRAM_REFRESHED]]
      [[CELL_TYPE_SRAM, CELL_TYPE_DRAM_NEIGHBOR_CTRL_LEAKY]] 0
      \<lparr>raw_ints = \<lambda>n. 0, raw_floats = \<lambda>n. 0\<rparr>))))
      ''v_neighbor_modulate''"
    by (simp add: build_eval has_gate_on_def is_gated_by_def gnd_def upt_rec numeral_2_eq_2)
qed
subsection \<open>Stimulus generation\<close>

lemma sorted_wrt_less_last:
  fixes xs :: "real list"
  assumes "sorted_wrt (<) xs" "y \<in> set xs"
  shows "y \<le> last xs"
  using assms
proof (induction xs)
  case Nil
  then show ?case by simp
next
  case (Cons x xs)
  show ?case
  proof (cases "xs = []")
    case True
    with Cons.prems show ?thesis by simp
  next
    case False
    then have mem: "last xs \<in> set xs" by simp
    from Cons.prems(1) have srt: "sorted_wrt (<) xs" and lt: "\<forall>z\<in>set xs. x < z" by auto
    from lt mem have "x < last xs" by blast
    moreover have "y \<in> set xs \<Longrightarrow> y \<le> last xs" using Cons.IH [OF srt] .
    ultimately have "y \<le> last xs" using Cons.prems(2) by auto
    then show ?thesis using False by simp
  qed
qed

lemma append_sample_ok:
  assumes "wave_ok num_inputs num_outputs m s" "0 < dt"
  shows "wave_ok num_inputs num_outputs (Suc m)
           (append_sample num_inputs num_outputs dt v_in v_err v_mod s)"
proof -
  have ne: "T s \<noteq> []" using assms(1) by (auto simp: wave_ok_def)
  have "\<forall>y\<in>set (T s). y < t_current s + dt"
  proof
    fix y assume "y \<in> set (T s)"
    moreover have "sorted_wrt (<) (T s)" using assms(1) by (simp add: wave_ok_def)
    ultimately have "y \<le> last (T s)" by (rule sorted_wrt_less_last [rotated])
    then show "y < t_current s + dt" using assms by (auto simp: wave_ok_def)
  qed
  then show ?thesis
    using assms(1) by (simp add: wave_ok_def append_sample_def sorted_wrt_append)
qed

lemma time_step_bounds: "0 < time_step" "0 < 5 / 10 ^ 6 - time_step"
  by (simp_all add: time_step_def)

lemma pattern_samples_ok:
  assumes "wave_ok num_inputs num_outputs m s"
  shows "wave_ok num_inputs num_outputs (m + 10)
           (pattern_samples num_inputs num_outputs learning_step pattern target s)"
proof -
  have ten: "m + 10 = Suc (Suc (Suc (Suc (Suc (Suc (Suc (Suc (Suc (Suc m)))))))))"
    by simp
  note step = append_sample_ok [OF _ time_step_bounds(1)]
  note hold = append_sample_ok [OF _ time_step_bounds(2)]
  show ?thesis
    unfolding pattern_samples_def Let_def ten
    by (intro step hold assms)
qed

lemma pattern_signals_ok:
  assumes "wave_ok num_inputs num_outputs m s"
    and "num_inputs \<le> length (fst sample)" "num_outputs \<le> length (snd sample)"
  shows "\<exists>s'. pattern_signals num_inputs num_outputs learning_step sample s = Inr s' \<and>
              wave_ok num_inputs num_outputs (m + 10) s'"
  using assms(2,3) pattern_samples_ok [OF assms(1)]
  by (cases sample) (simp add: pattern_signals_def)

lemma pattern_loop_ok:
  assumes "wave_ok num_inputs num_outputs m s"
    and "\<forall>sample\<in>set samples. num_inputs \<le> length (fst sample) \<and> num_outputs \<le> length (snd sample)"
  shows "\<exists>s'. for_loop (pattern_signals num_inputs num_outputs learning_step) samples s = Inr s' \<and>
              wave_ok num_inputs num_outputs (m + 10 * length samples) s'"
  using assms
proof (induction samples arbitrary: m s)
  case Nil
  then show ?case by simp
next
  case (Cons x xs)
  from pattern_signals_ok [OF Cons.prems(1), of x learning_step] Cons.prems(2)
  obtain s1 where s1: "pattern_signals num_inputs num_outputs learning_step x s = Inr s1"
    and ok1: "wave_ok num_inputs num_outputs (m + 10) s1" by auto
  from Cons.IH [OF ok1] Cons.prems(2)
  obtain s' where "for_loop (pattern_signals num_inputs num_outputs learning_step) xs s1 = Inr s'"
    and "wave_ok num_inputs num_outputs (m + 10 + 10 * length xs) s'" by auto
  with s1 show ?case by (simp add: add.assoc)
qed

lemma initial_wave_ok:
  "wave_ok num_inputs num_outputs 0
     \<lparr>T = [0], t_current = 0, V_inputs = replicate num_inputs [0],
      V_errors = replicate num_outputs [0], V_neighbor_mod = [0]\<rparr>"
  by (simp add: wave_ok_def)

lemma stimulus_waveforms_ok:
  assumes "\<forall>sample\<in>set (zip train_patterns train_targets).
             num_inputs \<le> length (fst sample) \<and> num_outputs \<le> length (snd sample)"
  shows "\<exists>s. stimulus_waveforms num_inputs num_outputs train_patterns train_targets learning_step
               = Inr s \<and>
             wave_ok num_inputs num_outputs
               (10 * length (zip train_patterns train_targets) + 1) s"
proof -
  from pattern_loop_ok [OF initial_wave_ok assms, of learning_step]
  obtain s1 where
    loop: "for_loop (pattern_signals num_inputs num_outputs learning_step)
             (zip train_patterns train_targets)
             \<lparr>T = [0], t_current = 0, V_inputs = replicate num_inputs [0],
              V_errors = replicate num_outputs [0], V_neighbor_mod = [0]\<rparr> = Inr s1"
    and ok: "wave_ok num_inputs num_outputs (0 + 10 * length (zip train_patterns train_targets)) s1"
    by blast
  have "wave_ok num_inputs num_outputs (Suc (10 * length (zip train_patterns train_targets)))
          (append_sample num_inputs num_outputs (5 / 10 ^ 6) (\<lambda>i. 0) (\<lambda>k. 0) 0 s1)"
    using append_sample_ok [OF ok, of "5 / 10 ^ 6"] by simp
  then show ?thesis
    using loop by (simp add: stimulus_waveforms_def)
qed

lemma extend_replicate:
  "map (\<lambda>i. replicate n a ! i @ [b]) [0..<n] = replicate n (a @ [b])"
  by (simp add: list_eq_iff_nth_eq)

lemma stimulus_waveforms_empty:
  "stimulus_waveforms num_inputs num_outputs [] [] learning_step
     = Inr \<lparr>T = [0, 5 / 10 ^ 6], t_current = 5 / 10 ^ 6,
            V_inputs = replicate num_inputs [0, 0],
            V_errors = replicate num_outputs [0, 0], V_neighbor_mod = [0, 0]\<rparr>"
  by (simp add: stimulus_waveforms_def append_sample_def extend_replicate)

text \<open>
  C2. For a training set of \<open>n\<close> patterns of the declared widths, the stimulus generator
  returns a time axis of \<open>10 * n + 2\<close> strictly increasing time stamps and gives the
  circuit one piecewise-linear source per input line, per error line and for the
  neighbour modulation, each pairing that time axis with as many values. For an empty
  training set the waveforms are the initial sample and the final rest sample only.
\<close>

theorem generate_simulation_signals_samples:
  "(length train_patterns = length train_targets \<and>
    (\<forall>p\<in>set train_patterns. length p = num_inputs) \<and>
    (\<forall>t\<in>set train_targets. length t = num_outputs) \<and>
    length nodes_in = num_inputs \<longrightarrow>
    (\<exists>c' Ts t_end.
       generate_simulation_signals num_inputs num_outputs c nodes_in train_patterns train_targets
         learning_step = Inr (c', Ts, t_end) \<and>
       length Ts = 10 * length train_patterns + 2 \<and> sorted_wrt (<) Ts \<and>
       (\<forall>i<num_inputs. \<exists>vs. length vs = length Ts \<and>
          PieceWiseLinearVoltageSource (''V_input_'' @ str_nat i)
            (''V_input_'' @ str_nat i @ ''_temp'') gnd (zip Ts vs) \<in> set (elements c')) \<and>
       (\<forall>k<num_outputs. \<exists>vs. length vs = length Ts \<and>
          PieceWiseLinearVoltageSource (''V_error_'' @ str_nat k)
            (''verror_'' @ str_nat k @ ''_src_internal'') gnd (zip Ts vs) \<in> set (elements c')) \<and>
       (\<exists>vs. length vs = length Ts \<and>
          PieceWiseLinearVoltageSource ''V_neighbor_mod'' ''V_neighbor_mod_temp'' gnd (zip Ts vs)
            \<in> set (elements c')))) \<and>
   stimulus_waveforms num_inputs num_outputs [] [] learning_step
     = Inr \<lparr>T = [0, 5 / 10 ^ 6], t_current = 5 / 10 ^ 6,
            V_inputs = replicate num_inputs [0, 0],
            V_errors = replicate num_outputs [0, 0], V_neighbor_mod = [0, 0]\<rparr>"
proof (intro conjI impI)
  assume wf: "length train_patterns = length train_targets \<and>
    (\<forall>p\<in>set train_patterns. length p = num_inputs) \<and>
    (\<forall>t\<in>set train_targets. length t = num_outputs) \<and>
    length nodes_in = num_inputs"
  have "\<forall>sample\<in>set (zip train_patterns train_targets).
          num_inputs \<le> length (fst sample) \<and> num_outputs \<le> length (snd sample)"
    using wf by (auto dest: set_zip_leftD set_zip_rightD)
  from stimulus_waveforms_ok [OF this, of learning_step] obtain s where
    s: "stimulus_waveforms num_inputs num_outputs train_patterns train_targets learning_step = Inr s"
    and ok: "wave_ok num_inputs num_outputs (10 * length (zip train_patterns train_targets) + 1) s"
    by blast
  have n: "length (zip train_patterns train_targets) = length train_patterns"
    using wf by simp
  obtain c' where
    g: "generate_simulation_signals num_inputs num_outputs c nodes_in train_patterns train_targets
          learning_step = Inr (c', T s, t_current s)"
    and els: "elements c' = elements c
        @ concat (map (\<lambda>i.
             [PieceWiseLinearVoltageSource (''V_input_'' @ str_nat i)
                (''V_input_'' @ str_nat i @ ''_temp'') gnd (zip (T s) (V_inputs s ! i)),
              Resistor (''R_input_'' @ str_nat i)
                (''V_input_'' @ str_nat i @ ''_temp'') (nodes_in ! i) 100]) [0..<num_inputs])
        @ map (\<lambda>k. PieceWiseLinearVoltageSource (''V_error_'' @ str_nat k)
                 (''verror_'' @ str_nat k @ ''_src_internal'') gnd
                 (zip (T s) (V_errors s ! k))) [0..<num_outputs]
        @ [PieceWiseLinearVoltageSource ''V_neighbor_mod'' ''V_neighbor_mod_temp'' gnd
             (zip (T s) (V_neighbor_mod s)),
           Resistor ''R_neighbor_mod'' ''V_neighbor_mod_temp'' ''v_neighbor_modulate'' 100]"
    using wf s by (simp add: generate_simulation_signals_def add_elements_def Let_def)
  have len: "length (T s) = 10 * length train_patterns + 2" and srt: "sorted_wrt (<) (T s)"
    using ok n by (simp_all add: wave_ok_def)
  have inp: "\<forall>i<num_inputs. \<exists>vs. length vs = length (T s) \<and>
          PieceWiseLinearVoltageSource (''V_input_'' @ str_nat i)
            (''V_input_'' @ str_nat i @ ''_temp'') gnd (zip (T s) vs) \<in> set (elements c')"
  proof (intro allI impI)
    fix i assume i: "i < num_inputs"
    have "length (V_inputs s ! i) = length (T s)" using ok i by (simp add: wave_ok_def)
    moreover have "PieceWiseLinearVoltageSource (''V_input_'' @ str_nat i)
            (''V_input_'' @ str_nat i @ ''_temp'') gnd (zip (T s) (V_inputs s ! i))
            \<in> set (elements c')"
      using i unfolding els by (auto intro!: bexI [of _ i])
    ultimately show "\<exists>vs. length vs = length (T s) \<and>
          PieceWiseLinearVoltageSource (''V_input_'' @ str_nat i)
            (''V_input_'' @ str_nat i @ ''_temp'') gnd (zip (T s) vs) \<in> set (elements c')"
      by blast
  qed
  have err: "\<forall>k<num_outputs. \<exists>vs. length vs = length (T s) \<and>
          PieceWiseLinearVoltageSource (''V_error_'' @ str_nat k)
            (''verror_'' @ str_nat k @ ''_src_internal'') gnd (zip (T s) vs) \<in> set (elements c')"
  proof (intro allI impI)
    fix k assume k: "k < num_outputs"
    have "length (V_errors s ! k) = length (T s)" using ok k by (simp add: wave_ok_def)
    moreover have "PieceWiseLinearVoltageSource (''V_error_'' @ str_nat k)
            (''verror_'' @ str_nat k @ ''_src_internal'') gnd (zip (T s) (V_errors s ! k))
            \<in> set (elements c')"
      using k unfolding els by (auto intro!: bexI [of _ k])
    ultimately show "\<exists>vs. length vs = length (T s) \<and>
          PieceWiseLinearVoltageSource (''V_error_'' @ str_nat k)
            (''verror_'' @ str_nat k @ ''_src_internal'') gnd (zip (T s) vs) \<in> set (elements c')"
      by blast
  qed
  have nm: "\<exists>vs. length vs = length (T s) \<and>
          PieceWiseLinearVoltageSource ''V_neighbor_mod'' ''V_neighbor_mod_temp'' gnd (zip (T s) vs)
            \<in> set (elements c')"
  proof -
    have "length (V_neighbor_mod s) = length (T s)" using ok by (simp add: wave_ok_def)
    moreover have "PieceWiseLinearVoltageSource ''V_neighbor_mod'' ''V_neighbor_mod_temp'' gnd
            (zip (T s) (V_neighbor_mod s)) \<in> set (elements c')"
      unfolding els by simp
    ultimately show ?thesis by blast
  qed
  show "\<exists>c' Ts t_end.
       generate_simulation_signals num_inputs num_outputs c nodes_in train_patterns train_targets
         learning_step = Inr (c', Ts, t_end) \<and>
       length Ts = 10 * length train_patterns + 2 \<and> sorted_wrt (<) Ts \<and>
       (\<forall>i<num_inputs. \<exists>vs. length vs = length Ts \<and>
          PieceWiseLinearVoltageSource (''V_input_'' @ str_nat i)
            (''V_input_'' @ str_nat i @ ''_temp'') gnd (zip Ts vs) \<in> set (elements c')) \<and>
       (\<forall>k<num_outputs. \<exists>vs. length vs = length Ts \<and>
          PieceWiseLinearVoltageSource (''V_error_'' @ str_nat k)
            (''verror_'' @ str_nat k @ ''_src_internal'') gnd (zip Ts vs) \<in> set (elements c')) \<and>
       (\<exists>vs. length vs = length Ts \<and>
          PieceWiseLinearVoltageSource ''V_neighbor_mod'' ''V_neighbor_mod_temp'' gnd (zip Ts vs)
            \<in> set (elements c'))"
    using g len srt inp err nm by blast
next
  show "stimulus_waveforms num_inputs num_outputs [] [] learning_step
     = Inr \<lparr>T = [0, 5 / 10 ^ 6], t_current = 5 / 10 ^ 6,
            V_inputs = replicate num_inputs [0, 0],
            V_errors = replicate num_outputs [0, 0], V_neighbor_mod = [0, 0]\<rparr>"
    by (rule stimulus_waveforms_empty)
qed

theorem generate_simulation_signals_samples_witness:
  "\<exists>c' Ts t_end.
      generate_simulation_signals 2 1
        \<lparr>title = ''t'', raw_spice = [], elements = [], models = []\<rparr>
        [''input_0'', ''input_1''] [[1, 0]] [[1]] 0 = Inr (c', Ts, t_end) \<and>
      length Ts = 12 \<and> sorted_wrt (<) Ts"
proof -
  have h: "length [[1, 0 :: int]] = length [[1 :: int]] \<and>
   (\<forall>p\<in>set [[1, 0 :: int]]. length p = 2) \<and>
   (\<forall>t\<in>set [[1 :: int]]. length t = 1) \<and>
   length [''input_0'', ''input_1''] = 2" by simp
  note t = generate_simulation_signals_samples
         [of "[[1, 0]]" "[[1]]" 2 1 "[''input_0'', ''input_1'']"
             "\<lparr>title = ''t'', raw_spice = [], elements = [], models = []\<rparr>" 0,
          THEN conjunct1, THEN mp, OF h]
  from t obtain c' Ts t_end where
    g: "generate_simulation_signals 2 1
        \<lparr>title = ''t'', raw_spice = [], elements = [], models = []\<rparr>
        [''input_0'', ''input_1''] [[1, 0]] [[1]] 0 = Inr (c', Ts, t_end)"
    and l: "length Ts = 10 * length [[1, 0 :: int]] + 2" and s: "sorted_wrt (<) Ts"
    by (elim exE conjE)
  from l have l': "length Ts = 12" by simp
  from g l' s show ?thesis by (intro exI conjI)
qed

text \<open>
  The values of the waveforms, phase by phase. Sample \<open>10 * j + 1\<close> opens pattern
  \<open>j\<close>: samples 5 and 6 of a pattern are the error-feedback phase, 7 and 8 the update
  phase, 9 and 10 the rest phase.
\<close>

lemma nth_concat_blocks:
  assumes "\<forall>x\<in>set xs. length (f x) = n" "j < length xs" "i < n"
  shows "concat (map f xs) ! (n * j + i) = f (xs ! j) ! i"
  using assms
proof (induction xs arbitrary: j)
  case Nil
  then show ?case by simp
next
  case (Cons x xs)
  show ?case
  proof (cases j)
    case 0
    with Cons.prems show ?thesis by (simp add: nth_append)
  next
    case (Suc j')
    with Cons.prems have "concat (map f xs) ! (n * j' + i) = f (xs ! j') ! i"
      by (intro Cons.IH) auto
    moreover have "length (f x) = n" using Cons.prems by simp
    ultimately show ?thesis using Suc by (simp add: nth_append)
  qed
qed

lemma pattern_samples_channels:
  shows "\<forall>k<num_outputs.
           V_errors (pattern_samples num_inputs num_outputs learning_step pattern target s) ! k
             = V_errors s ! k @ error_block learning_step k (pattern, target)"
    and "V_neighbor_mod (pattern_samples num_inputs num_outputs learning_step pattern target s)
             = V_neighbor_mod s @ inhibit_block learning_step"
    and "\<forall>i<num_inputs.
           V_inputs (pattern_samples num_inputs num_outputs learning_step pattern target s) ! i
             = V_inputs s ! i @ input_block i (pattern, target)"
  by (simp_all add: pattern_samples_def append_sample_def Let_def error_block_def
      error_value_def inhibit_block_def inhibit_value_def input_block_def)


lemma pattern_loop_channels:
  assumes "for_loop (pattern_signals num_inputs num_outputs learning_step) samples s = Inr s'"
  shows "(\<forall>k<num_outputs. V_errors s' ! k
            = V_errors s ! k @ concat (map (error_block learning_step k) samples)) \<and>
         V_neighbor_mod s'
            = V_neighbor_mod s @ concat (map (\<lambda>sample. inhibit_block learning_step) samples) \<and>
         (\<forall>i<num_inputs. V_inputs s' ! i
            = V_inputs s ! i @ concat (map (input_block i) samples))"
  using assms
proof (induction samples arbitrary: s)
  case Nil
  then show ?case by simp
next
  case (Cons x xs)
  obtain pattern target where x: "x = (pattern, target)" by (cases x)
  from Cons.prems obtain s1 where
    s1: "pattern_signals num_inputs num_outputs learning_step x s = Inr s1"
    and rest: "for_loop (pattern_signals num_inputs num_outputs learning_step) xs s1 = Inr s'"
    by (auto split: sum.splits)
  from s1 x have s1': "s1 = pattern_samples num_inputs num_outputs learning_step pattern target s"
    by (auto simp: pattern_signals_def split: if_splits)
  have ch: "\<forall>k<num_outputs. V_errors s1 ! k = V_errors s ! k @ error_block learning_step k x"
    "V_neighbor_mod s1 = V_neighbor_mod s @ inhibit_block learning_step"
    "\<forall>i<num_inputs. V_inputs s1 ! i = V_inputs s ! i @ input_block i x"
    unfolding s1' x by (rule pattern_samples_channels)+
  from Cons.IH [OF rest] ch show ?case by simp
qed

lemma block_lengths:
  "length (error_block learning_step k sample) = 10"
  "length (inhibit_block learning_step) = 10"
  "length (input_block i sample) = 10"
  by (simp_all add: error_block_def inhibit_block_def input_block_def)

lemma stimulus_waveforms_channels:
  assumes "stimulus_waveforms num_inputs num_outputs train_patterns train_targets learning_step
             = Inr s"
  shows "(\<forall>k<num_outputs. V_errors s ! k
            = [0] @ concat (map (error_block learning_step k)
                              (zip train_patterns train_targets)) @ [0]) \<and>
         V_neighbor_mod s
            = [0] @ concat (map (\<lambda>sample. inhibit_block learning_step)
                              (zip train_patterns train_targets)) @ [0] \<and>
         (\<forall>i<num_inputs. V_inputs s ! i
            = [0] @ concat (map (input_block i) (zip train_patterns train_targets)) @ [0])"
proof -
  from assms obtain s1 where
    loop: "for_loop (pattern_signals num_inputs num_outputs learning_step)
             (zip train_patterns train_targets)
             \<lparr>T = [0], t_current = 0, V_inputs = replicate num_inputs [0],
              V_errors = replicate num_outputs [0], V_neighbor_mod = [0]\<rparr> = Inr s1"
    and s: "s = append_sample num_inputs num_outputs (5 / 10 ^ 6) (\<lambda>i. 0) (\<lambda>k. 0) 0 s1"
    by (auto simp: stimulus_waveforms_def split: sum.splits)
  from pattern_loop_channels [OF loop] show ?thesis
    unfolding s by (simp add: append_sample_def)
qed

lemma nth_framed_blocks:
  assumes "\<forall>x\<in>set xs. length (f x) = 10" "j < length xs" "i < 10"
  shows "([a] @ concat (map f xs) @ [b]) ! (10 * j + Suc i) = f (xs ! j) ! i"
proof -
  have len: "length (concat (map f xs)) = 10 * length xs"
    using assms(1) by (induction xs) auto
  have "10 * j + i < 10 * length xs" using assms(2,3) by simp
  then have "([a] @ concat (map f xs) @ [b]) ! (10 * j + Suc i)
        = concat (map f xs) ! (10 * j + i)"
    using len by (simp add: nth_append)
  also have "\<dots> = f (xs ! j) ! i" by (rule nth_concat_blocks [OF assms])
  finally show ?thesis .
qed

lemma stimulus_error_feedback_values:
  assumes "stimulus_waveforms num_inputs num_outputs train_patterns train_targets learning_step
             = Inr s"
    and j: "j < length train_patterns" "j < length train_targets" and k: "k < num_outputs"
  shows "V_errors s ! k ! (10 * j + 5) = error_value learning_step (train_targets ! j ! k)"
    and "V_errors s ! k ! (10 * j + 6) = error_value learning_step (train_targets ! j ! k)"
    and "V_neighbor_mod s ! (10 * j + 5) = inhibit_value learning_step"
    and "V_neighbor_mod s ! (10 * j + 6) = inhibit_value learning_step"
    and "V_errors s ! k ! (10 * j + 7) = 0" and "V_errors s ! k ! (10 * j + 8) = 0"
    and "V_neighbor_mod s ! (10 * j + 7) = V_neighbor_mod s ! (10 * j + 6)"
    and "V_neighbor_mod s ! (10 * j + 8) = V_neighbor_mod s ! (10 * j + 6)"
    and "V_errors s ! k ! (10 * j + 9) = 0" and "V_errors s ! k ! (10 * j + 10) = 0"
    and "V_neighbor_mod s ! (10 * j + 9) = 0" and "V_neighbor_mod s ! (10 * j + 10) = 0"
proof -
  let ?xs = "zip train_patterns train_targets"
  have jz: "j < length ?xs" using j by simp
  have xj: "?xs ! j = (train_patterns ! j, train_targets ! j)" using j by simp
  note ch = stimulus_waveforms_channels [OF assms(1)]
  have e: "V_errors s ! k = [0] @ concat (map (error_block learning_step k) ?xs) @ [0]"
    using ch k by blast
  have n: "V_neighbor_mod s
            = [0] @ concat (map (\<lambda>sample. inhibit_block learning_step) ?xs) @ [0]"
    using ch by blast
  have eb: "\<forall>x\<in>set ?xs. length (error_block learning_step k x) = 10"
    and ib: "\<forall>x\<in>set ?xs. length (inhibit_block learning_step) = 10"
    by (simp_all add: block_lengths)
  have E: "V_errors s ! k ! (10 * j + Suc i) = error_block learning_step k (?xs ! j) ! i"
    if "i < 10" for i
    unfolding e by (rule nth_framed_blocks [OF eb jz that])
  have N: "V_neighbor_mod s ! (10 * j + Suc i) = inhibit_block learning_step ! i"
    if "i < 10" for i
    unfolding n by (rule nth_framed_blocks [OF ib jz that])
  show "V_errors s ! k ! (10 * j + 5) = error_value learning_step (train_targets ! j ! k)"
    using E [of 4] by (simp add: error_block_def xj)
  show "V_errors s ! k ! (10 * j + 6) = error_value learning_step (train_targets ! j ! k)"
    using E [of 5] by (simp add: error_block_def xj)
  show "V_neighbor_mod s ! (10 * j + 5) = inhibit_value learning_step"
    using N [of 4] by (simp add: inhibit_block_def)
  show n6: "V_neighbor_mod s ! (10 * j + 6) = inhibit_value learning_step"
    using N [of 5] by (simp add: inhibit_block_def)
  show "V_errors s ! k ! (10 * j + 7) = 0"
    using E [of 6] by (simp add: error_block_def)
  show "V_errors s ! k ! (10 * j + 8) = 0"
    using E [of 7] by (simp add: error_block_def)
  show "V_neighbor_mod s ! (10 * j + 7) = V_neighbor_mod s ! (10 * j + 6)"
    using N [of 6] n6 by (simp add: inhibit_block_def)
  show "V_neighbor_mod s ! (10 * j + 8) = V_neighbor_mod s ! (10 * j + 6)"
    using N [of 7] n6 by (simp add: inhibit_block_def)
  show "V_errors s ! k ! (10 * j + 9) = 0"
    using E [of 8] by (simp add: error_block_def)
  show "V_errors s ! k ! (10 * j + 10) = 0"
    using E [of 9] by (simp add: error_block_def)
  show "V_neighbor_mod s ! (10 * j + 9) = 0"
    using N [of 8] by (simp add: inhibit_block_def)
  show "V_neighbor_mod s ! (10 * j + 10) = 0"
    using N [of 9] by (simp add: inhibit_block_def)
qed

lemma error_value_signs:
  assumes "learning_step < 5"
  shows "0 < b \<Longrightarrow> error_value learning_step b < 0"
    and "\<not> 0 < b \<Longrightarrow> 0 < error_value learning_step b \<and>
           error_value learning_step b < \<bar>error_value learning_step 1\<bar>"
    and "0 < inhibit_value learning_step"
proof -
  have "real learning_step < 5" using assms by simp
  then have p: "0 < 1 - 0.2 * real learning_step" by simp
  show "0 < b \<Longrightarrow> error_value learning_step b < 0"
    using p by (simp add: error_value_def)
  show "\<not> 0 < b \<Longrightarrow> 0 < error_value learning_step b \<and>
           error_value learning_step b < \<bar>error_value learning_step 1\<bar>"
    using p by (simp add: error_value_def)
  show "0 < inhibit_value learning_step"
    by (simp add: inhibit_value_def)
qed

lemma error_value_from_step_5:
  assumes "5 \<le> learning_step"
  shows "0 \<le> error_value learning_step 1" and "error_value learning_step 0 \<le> 0"
proof -
  have "5 \<le> real learning_step" using assms by simp
  then have p: "1 - 0.2 * real learning_step \<le> 0" by simp
  show "0 \<le> error_value learning_step 1" using p by (simp add: error_value_def)
  show "error_value learning_step 0 \<le> 0" using p
    by (simp add: error_value_def mult_le_0_iff)
qed

text \<open>
  C8. The error strength is \<open>1 - 0.2 * learning_step\<close>: positive up to learning step
  4, zero at step 5 and negative from step 6 on. At learning step 6, for one pattern
  whose target bit is 1, the error line is driven to \<open>+0.24\<close> during the error-feedback
  phase (samples 5 and 6), not to a negative value. (Up to step 4 the signs are those of
  \<open>error_value_signs\<close>; at every step the update phase returns the error line to 0 and
  holds the neighbour modulation, and the rest phase returns every line to 0.)
\<close>

theorem stimulus_error_feedback_step_6:
  "stimulus_waveforms 1 1 [[1]] [[1]] 6
     = Inr \<lparr>T = [0, 5 / 10 ^ 8, 5 / 10 ^ 6, 505 / 10 ^ 8, 10 / 10 ^ 6, 1005 / 10 ^ 8,
                 15 / 10 ^ 6, 1505 / 10 ^ 8, 20 / 10 ^ 6, 2005 / 10 ^ 8, 25 / 10 ^ 6, 30 / 10 ^ 6],
            t_current = 30 / 10 ^ 6,
            V_inputs = [[0, 18, 18, 0, 0, 0, 0, 0, 0, 0, 0, 0]],
            V_errors = [[0, 0, 0, 0, 0, 6 / 25, 6 / 25, 0, 0, 0, 0, 0]],
            V_neighbor_mod = [0, 0, 0, 0, 0, 264 / 125, 264 / 125, 264 / 125, 264 / 125, 0, 0, 0]\<rparr>"
  by (simp add: stimulus_waveforms_def pattern_signals_def pattern_samples_def append_sample_def
      time_step_def Let_def)

subsection \<open>State extraction\<close>

lemma next_float_unit:
  assumes "unit_draws r" "next_float r = (u, r')"
  shows "0 \<le> u \<and> u < 1 \<and> unit_draws r'"
  using assms by (auto simp: unit_draws_def next_float_def)

lemma random_uniform_range:
  assumes "unit_draws r" "random_uniform low high r = (x, r')" "low \<le> high"
  shows "low \<le> x \<and> x \<le> high \<and> unit_draws r'"
proof -
  obtain u where u: "next_float r = (u, r')" and x: "x = low + (high - low) * u"
    using assms(2) by (auto simp: random_uniform_def split: prod.splits)
  from next_float_unit [OF assms(1) u] have b: "0 \<le> u" "u < 1" and d: "unit_draws r'" by auto
  have "0 \<le> (high - low) * u" using b assms(3) by simp
  moreover have "(high - low) * u \<le> (high - low) * 1"
    using b assms(3) by (intro mult_left_mono) auto
  ultimately show ?thesis using x d by simp
qed

lemma uniform_list_range:
  assumes "unit_draws r" "uniform_list low high n r = (xs, r')" "low \<le> high"
  shows "length xs = n \<and> (\<forall>x\<in>set xs. low \<le> x \<and> x \<le> high) \<and> unit_draws r'"
  using assms
proof (induction n arbitrary: r xs r')
  case 0
  then show ?case by simp
next
  case (Suc n)
  obtain x r1 where x: "random_uniform low high r = (x, r1)" by (cases "random_uniform low high r")
  obtain ys r2 where ys: "uniform_list low high n r1 = (ys, r2)"
    by (cases "uniform_list low high n r1")
  from Suc.prems(2) x ys have eq: "xs = x # ys" "r' = r2" by simp_all
  from random_uniform_range [OF Suc.prems(1) x Suc.prems(3)]
  have xr: "low \<le> x" "x \<le> high" and d1: "unit_draws r1" by auto
  from Suc.IH [OF d1 ys Suc.prems(3)] xr eq show ?case by simp
qed

lemma uniform_matrix_range:
  assumes "unit_draws r" "uniform_matrix low high rows cols r = (m, r')" "low \<le> high"
  shows "has_shape rows cols m \<and> (\<forall>row\<in>set m. \<forall>x\<in>set row. low \<le> x \<and> x \<le> high) \<and>
         unit_draws r'"
  using assms
proof (induction rows arbitrary: r m r')
  case 0
  then show ?case by (simp add: has_shape_def)
next
  case (Suc rows)
  obtain row r1 where row: "uniform_list low high cols r = (row, r1)"
    by (cases "uniform_list low high cols r")
  obtain rest r2 where rest: "uniform_matrix low high rows cols r1 = (rest, r2)"
    by (cases "uniform_matrix low high rows cols r1")
  from Suc.prems(2) row rest have eq: "m = row # rest" "r' = r2" by simp_all
  from uniform_list_range [OF Suc.prems(1) row Suc.prems(3)]
  have rr: "length row = cols" "\<forall>x\<in>set row. low \<le> x \<and> x \<le> high" and d1: "unit_draws r1"
    by auto
  from Suc.IH [OF d1 rest Suc.prems(3)] rr eq show ?case by (simp add: has_shape_def)
qed

lemma set_entry_shape:
  assumes "has_shape rows cols w"
  shows "has_shape rows cols (set_entry w i h v)"
proof (cases "i < length w")
  case True
  have "set (w[i := (w ! i)[h := v]]) \<subseteq> insert ((w ! i)[h := v]) (set w)"
    by (rule set_update_subset_insert)
  moreover have "length ((w ! i)[h := v]) = cols"
    using assms True by (simp add: has_shape_def)
  ultimately show ?thesis using assms by (auto simp: has_shape_def set_entry_def)
next
  case False
  then have "w[i := (w ! i)[h := v]] = w" by (simp add: list_update_beyond)
  then show ?thesis using assms by (simp add: set_entry_def)
qed

lemma set_entry_same:
  "has_shape rows cols w \<Longrightarrow> i < rows \<Longrightarrow> h < cols \<Longrightarrow> set_entry w i h v ! i ! h = v"
  by (simp add: has_shape_def set_entry_def)

lemma set_entry_other:
  assumes "(i', h') \<noteq> (i, h)"
  shows "set_entry w i h v ! i' ! h' = w ! i' ! h'"
proof (cases "i < length w")
  case True
  then show ?thesis using assms by (auto simp: set_entry_def nth_list_update)
next
  case False
  then have "w[i := (w ! i)[h := v]] = w" by (simp add: list_update_beyond)
  then show ?thesis by (simp add: set_entry_def)
qed


lemma random_weight_range:
  assumes "random_weight w i h r = (w', r')" "unit_draws r"
  shows "\<exists>v. w' = set_entry w i h v \<and> 0.1 \<le> v \<and> v \<le> 0.5 \<and> unit_draws r'"
proof -
  obtain x r1 where x: "random_uniform 0.1 0.5 r = (x, r1)"
    by (cases "random_uniform 0.1 0.5 r")
  with assms(1) have eq: "w' = set_entry w i h x" "r' = r1"
    by (simp_all add: random_weight_def)
  from random_uniform_range [OF assms(2) x] eq show ?thesis by auto
qed

lemma extract_weight_value:
  assumes "extract_weight a cf cs (i, h) (w, r) = Inr (w', r')" "D r"
    and fb: "\<forall>w i h r w' r'. D r \<and> random_weight w i h r = (w', r') \<longrightarrow>
               (\<exists>v. w' = set_entry w i h v \<and> R v \<and> D r')"
  shows "\<exists>v. w' = set_entry w i h v \<and> weight_ok R a cf cs (i, h) v \<and> D r'"
proof -
  from assms(1) have names: "get_name cf i h = Inr (cf ! i ! h)" "get_name cs i h = Inr (cs ! i ! h)"
    by (auto simp: extract_weight_def get_name_def split: sum.splits if_splits)
  define fo where "fo = nodes a (lower (cf ! i ! h))"
  define so where "so = nodes a (lower (cs ! i ! h))"
  show ?thesis
  proof (cases "\<exists>vf vs. fo = Some vf \<and> so = Some vs \<and> vf \<noteq> [] \<and> vs \<noteq> []")
    case True
    then obtain vf vs where v: "fo = Some vf" "so = Some vs" "vf \<noteq> []" "vs \<noteq> []" by blast
    with assms(1) names have "w' = set_entry w i h (last vf + last vs)" "r' = r"
      by (simp_all add: extract_weight_def Let_def fo_def so_def)
    then show ?thesis using v assms(2)
      by (auto simp: weight_ok_def fo_def [symmetric] so_def [symmetric])
  next
    case False
    with assms(1) names have "random_weight w i h r = (w', r')"
      by (auto simp: extract_weight_def Let_def fo_def so_def split: option.splits if_splits)
    with fb assms(2) obtain v where
      v: "w' = set_entry w i h v" "R v" "D r'" by blast
    have "weight_ok R a cf cs (i, h) v"
      using False v(2)
      by (auto simp: weight_ok_def fo_def so_def split: option.splits)
    with v show ?thesis by blast
  qed
qed

lemma extract_weight_loop:
  assumes loop: "for_loop (extract_weight a cf cs) (List.product [0..<rows] [0..<cols]) (w, r)
                   = Inr (w', r')"
    and "has_shape rows cols w" "D r"
    and fb: "\<forall>w i h r w' r'. D r \<and> random_weight w i h r = (w', r') \<longrightarrow>
               (\<exists>v. w' = set_entry w i h v \<and> R v \<and> D r')"
  shows "has_shape rows cols w' \<and> D r' \<and>
         (\<forall>i<rows. \<forall>h<cols. weight_ok R a cf cs (i, h) (w' ! i ! h))"
proof -
  let ?I = "\<lambda>st. has_shape rows cols (fst st) \<and> D (snd st)"
  let ?Q = "\<lambda>pos st. weight_ok R a cf cs pos (fst st ! fst pos ! snd pos)"
  have step: "has_shape rows cols (fst t') \<and> D (snd t') \<and>
              weight_ok R a cf cs x (fst t' ! fst x ! snd x) \<and>
              (\<forall>y. y \<noteq> x \<longrightarrow> fst t' ! fst y ! snd y = fst t ! fst y ! snd y)"
    if "x \<in> set (List.product [0..<rows] [0..<cols])" "?I t" "extract_weight a cf cs x t = Inr t'"
    for x t t'
  proof -
    obtain i h wt rt wt' rt' where eqs: "x = (i, h)" "t = (wt, rt)" "t' = (wt', rt')"
      by (cases x, cases t, cases t') auto
    from that(1) eqs have ih: "i < rows" "h < cols" by simp_all
    have "extract_weight a cf cs (i, h) (wt, rt) = Inr (wt', rt')" "D rt"
      using that(2,3) eqs by simp_all
    from extract_weight_value [where D = D and R = R, OF this fb]
    obtain v where v: "wt' = set_entry wt i h v" "weight_ok R a cf cs (i, h) v" "D rt'"
      by blast
    have sh: "has_shape rows cols wt" using that(2) eqs by simp
    show ?thesis
      using v ih set_entry_shape [OF sh, of i h v] set_entry_same [OF sh ih, of v]
      by (auto simp: eqs set_entry_other)
  qed
  have "?I (w', r') \<and> (\<forall>x\<in>set (List.product [0..<rows] [0..<cols]). ?Q x (w', r'))"
  proof (rule for_loop_establishes_inv [OF loop, where I = ?I and Q = ?Q])
    show "?I (w, r)" using assms(2,3) by simp
  next
    fix x t t'
    assume "x \<in> set (List.product [0..<rows] [0..<cols])" "?I t"
      "extract_weight a cf cs x t = Inr t'"
    from step [OF this] show "?I t'" by simp
  next
    fix x t t'
    assume "x \<in> set (List.product [0..<rows] [0..<cols])" "?I t"
      "extract_weight a cf cs x t = Inr t'"
    from step [OF this] show "?Q x t'" by simp
  next
    fix x y t t'
    assume x: "x \<in> set (List.product [0..<rows] [0..<cols])"
      and y: "y \<in> set (List.product [0..<rows] [0..<cols])" "?I t"
        "extract_weight a cf cs y t = Inr t'"
      and q: "?Q x t"
    from step [OF y] q show "?Q x t'" by (cases "x = y") auto
  qed
  then show ?thesis by auto
qed

lemma weight_ok_sum:
  "weight_ok R a cf cs (i, h) v \<Longrightarrow> nodes a (lower (cf ! i ! h)) = Some v_fast \<Longrightarrow>
   nodes a (lower (cs ! i ! h)) = Some v_slow \<Longrightarrow> v_fast \<noteq> [] \<Longrightarrow> v_slow \<noteq> [] \<Longrightarrow>
   v = last v_fast + last v_slow"
  by (simp add: weight_ok_def)

lemma weight_ok_missing:
  "weight_ok R a cf cs (i, h) v \<Longrightarrow>
   nodes a (lower (cf ! i ! h)) = None \<or> nodes a (lower (cs ! i ! h)) = None \<Longrightarrow> R v"
  by (auto simp: weight_ok_def split: option.splits)

lemma zeros_shape: "has_shape rows cols (zeros rows cols)"
  by (simp add: has_shape_def zeros_def)

lemma random_weight_any:
  "\<forall>w i h r w' r'. True \<and> random_weight w i h r = (w', r') \<longrightarrow>
     (\<exists>v. w' = set_entry w i h v \<and> True \<and> True)"
  by (auto simp: random_weight_def split: prod.splits)

lemma extract_network_state_unfold:
  assumes "extract_network_state num_inputs num_hidden num_outputs (Some a) cf1 cs1 cf2 cs2 r
             = Inr (ihw, how, r')"
  obtains r1 where
    "for_loop (extract_weight a cf1 cs1) (List.product [0..<num_inputs] [0..<num_hidden])
       (zeros num_inputs num_hidden, r) = Inr (ihw, r1)"
    "for_loop (extract_weight a cf2 cs2) (List.product [0..<num_hidden] [0..<num_outputs])
       (zeros num_hidden num_outputs, r1) = Inr (how, r')"
  using assms unfolding extract_network_state_def Let_def
  by (auto split: sum.splits prod.splits)

lemma random_weight_unit:
  "\<forall>w i h r w' r'. unit_draws r \<and> random_weight w i h r = (w', r') \<longrightarrow>
     (\<exists>v. w' = set_entry w i h v \<and> (0.1 \<le> v \<and> v \<le> 0.5) \<and> unit_draws r')"
  using random_weight_range by blast

lemma lower_examples:
  "lower ''ih_syn_0_0_fast'' = ''ih_syn_0_0_fast''"
  "lower ''ih_syn_0_0_slow'' = ''ih_syn_0_0_slow''"
  "lower ''ho_syn_0_0_fast'' = ''ho_syn_0_0_fast''"
  "lower ''ho_syn_0_0_slow'' = ''ho_syn_0_0_slow''"
  "lower ''input_0'' = ''input_0''"
  "lower ''hidden_0'' = ''hidden_0''"
  "lower ''output_0'' = ''output_0''"
  by (simp_all add: lower_def lower_char_def)

lemma unit_draws_half: "unit_draws \<lparr>raw_ints = \<lambda>n. 0, raw_floats = \<lambda>n. 1 / 2\<rparr>"
  by (simp add: unit_draws_def)

lemma extract_failure_example:
  "extract_network_state 1 1 1 None [[''ih_syn_0_0_fast'']] [[''ih_syn_0_0_slow'']]
     [[''ho_syn_0_0_fast'']] [[''ho_syn_0_0_slow'']]
     \<lparr>raw_ints = \<lambda>n. 0, raw_floats = \<lambda>n. 1 / 2\<rparr>
   = Inr ([[3 / 10]], [[3 / 10]], \<lparr>raw_ints = \<lambda>n. 0, raw_floats = \<lambda>n. 1 / 2\<rparr>)"
  by (simp add: extract_network_state_def random_uniform_def next_float_def zeros_def
      numeral_eq_Suc)

lemma extract_partial_example:
  "extract_network_state 1 1 1
     (Some \<lparr>time = [0, 1],
            nodes = [''ih_syn_0_0_fast'' \<mapsto> [1 / 10, 2 / 10],
                     ''ih_syn_0_0_slow'' \<mapsto> [3 / 10, 4 / 10]]\<rparr>)
     [[''ih_syn_0_0_fast'']] [[''ih_syn_0_0_slow'']]
     [[''ho_syn_0_0_fast'']] [[''ho_syn_0_0_slow'']]
     \<lparr>raw_ints = \<lambda>n. 0, raw_floats = \<lambda>n. 1 / 2\<rparr>
   = Inr ([[3 / 5]], [[3 / 10]], \<lparr>raw_ints = \<lambda>n. 0, raw_floats = \<lambda>n. 1 / 2\<rparr>)"
  by (simp add: extract_network_state_def extract_weight_def get_name_def random_weight_def
      random_uniform_def next_float_def zeros_def set_entry_def lower_examples)

lemma skip_floats_0: "skip_floats 0 r = r"
  by (simp add: skip_floats_def)

lemma skip_floats_next: "snd (next_float (skip_floats k r)) = skip_floats (Suc k) r"
  by (simp add: skip_floats_def next_float_def)

lemma skip_floats_skip: "skip_floats j (skip_floats k r) = skip_floats (k + j) r"
  by (simp add: skip_floats_def ac_simps)

lemma random_uniform_draw:
  "random_uniform low high r = (low + (high - low) * raw_floats r 0, skip_floats 1 r)"
  by (simp add: random_uniform_def next_float_def skip_floats_def)

lemma raw_floats_skip: "raw_floats (skip_floats k r) n = raw_floats r (n + k)"
  by (simp add: skip_floats_def)

lemma uniform_list_nth:
  assumes "uniform_list low high n r = (xs, r')"
  shows "length xs = n \<and> (\<forall>j<n. xs ! j = low + (high - low) * raw_floats r j) \<and>
         r' = skip_floats n r"
  using assms
proof (induction n arbitrary: r xs r')
  case 0
  then show ?case by (simp add: skip_floats_0)
next
  case (Suc n)
  obtain ys r2 where ys: "uniform_list low high n (skip_floats 1 r) = (ys, r2)"
    by (cases "uniform_list low high n (skip_floats 1 r)")
  from Suc.prems ys have eq: "xs = (low + (high - low) * raw_floats r 0) # ys" "r' = r2"
    by (simp_all add: random_uniform_draw)
  from Suc.IH [OF ys] have l: "length ys = n"
    and v: "\<forall>j<n. ys ! j = low + (high - low) * raw_floats r (j + 1)"
    and r2: "r2 = skip_floats (1 + n) r"
    by (simp_all add: raw_floats_skip skip_floats_skip)
  show ?case
  proof (intro conjI allI impI)
    show "length xs = Suc n" using eq l by simp
    show "r' = skip_floats (Suc n) r" using eq r2 by simp
    fix j assume "j < Suc n"
    then show "xs ! j = low + (high - low) * raw_floats r j"
      using v eq by (cases j) simp_all
  qed
qed

lemma uniform_matrix_nth:
  assumes "uniform_matrix low high rows cols r = (m, r')"
  shows "(\<forall>i<rows. \<forall>j<cols. m ! i ! j = low + (high - low) * raw_floats r (i * cols + j)) \<and>
         r' = skip_floats (rows * cols) r"
  using assms
proof (induction rows arbitrary: r m r')
  case 0
  then show ?case by (simp add: skip_floats_0)
next
  case (Suc rows)
  obtain row r1 where row: "uniform_list low high cols r = (row, r1)"
    by (cases "uniform_list low high cols r")
  obtain rest r2 where rest: "uniform_matrix low high rows cols r1 = (rest, r2)"
    by (cases "uniform_matrix low high rows cols r1")
  from Suc.prems row rest have eq: "m = row # rest" "r' = r2" by simp_all
  from uniform_list_nth [OF row]
  have rv: "\<forall>j<cols. row ! j = low + (high - low) * raw_floats r j"
    and r1: "r1 = skip_floats cols r" by simp_all
  from Suc.IH [OF rest]
  have mv: "\<forall>i<rows. \<forall>j<cols. rest ! i ! j = low + (high - low) * raw_floats r (i * cols + j + cols)"
    and r2: "r2 = skip_floats (cols + rows * cols) r"
    by (simp_all add: r1 raw_floats_skip skip_floats_skip)
  show ?case
  proof (intro conjI allI impI)
    show "r' = skip_floats (Suc rows * cols) r" using eq r2 by simp
    fix i j assume ij: "i < Suc rows" "j < cols"
    show "m ! i ! j = low + (high - low) * raw_floats r (i * cols + j)"
    proof (cases i)
      case 0
      then show ?thesis using rv ij eq by simp
    next
      case (Suc i')
      with ij have "i' < rows" by simp
      with mv ij have "rest ! i' ! j = low + (high - low) * raw_floats r (i' * cols + j + cols)"
        by simp
      then show ?thesis using Suc eq by (simp add: ac_simps)
    qed
  qed
qed


lemma extract_weight_step:
  assumes "extract_weight a cf cs (i, h) (w, r) = Inr (w', r')"
  shows "(needs_fallback a cf cs (i, h) \<longrightarrow>
            w' = set_entry w i h (0.1 + (0.5 - 0.1) * raw_floats r 0) \<and> r' = skip_floats 1 r) \<and>
         (\<not> needs_fallback a cf cs (i, h) \<longrightarrow> (\<exists>v. w' = set_entry w i h v) \<and> r' = r)"
proof -
  from assms have names: "get_name cf i h = Inr (cf ! i ! h)" "get_name cs i h = Inr (cs ! i ! h)"
    by (auto simp: extract_weight_def get_name_def split: sum.splits if_splits)
  define fo where "fo = nodes a (lower (cf ! i ! h))"
  define so where "so = nodes a (lower (cs ! i ! h))"
  have nf: "needs_fallback a cf cs (i, h) \<longleftrightarrow>
            \<not> (\<exists>vf vs. fo = Some vf \<and> so = Some vs \<and> vf \<noteq> [] \<and> vs \<noteq> [])"
    by (auto simp: needs_fallback_def fo_def so_def split: option.splits)
  show ?thesis
  proof (cases "needs_fallback a cf cs (i, h)")
    case True
    with assms names nf have "random_weight w i h r = (w', r')"
      by (auto simp: extract_weight_def Let_def fo_def so_def split: option.splits if_splits)
    then show ?thesis using True
      by (simp add: random_weight_def random_uniform_draw)
  next
    case False
    with nf obtain vf vs where v: "fo = Some vf" "so = Some vs" "vf \<noteq> []" "vs \<noteq> []" by blast
    with assms names have "w' = set_entry w i h (last vf + last vs)" "r' = r"
      by (simp_all add: extract_weight_def Let_def fo_def so_def)
    then show ?thesis using False by blast
  qed
qed

lemma extract_weight_draws:
  assumes "for_loop (extract_weight a cf cs) ps (w, r) = Inr (w', r')"
    and "has_shape rows cols w" "distinct ps" "\<forall>p\<in>set ps. fst p < rows \<and> snd p < cols"
  shows "has_shape rows cols w' \<and>
         r' = skip_floats (length (filter (needs_fallback a cf cs) ps)) r \<and>
         (\<forall>j<length ps. needs_fallback a cf cs (ps ! j) \<longrightarrow>
            w' ! fst (ps ! j) ! snd (ps ! j) =
              0.1 + (0.5 - 0.1) *
                raw_floats r (length (filter (needs_fallback a cf cs) (take j ps))))"
  using assms
proof (induction ps arbitrary: w' r' rule: rev_induct)
  case Nil
  then show ?case by (simp add: skip_floats_0)
next
  case (snoc x ps)
  let ?nf = "needs_fallback a cf cs"
  from snoc.prems(1) obtain w1 r1 where
    l1: "for_loop (extract_weight a cf cs) ps (w, r) = Inr (w1, r1)"
    and st: "extract_weight a cf cs x (w1, r1) = Inr (w', r')"
    by (auto simp: for_loop_append split: sum.splits)
  from snoc.prems have d: "distinct ps" "x \<notin> set ps"
    and b: "\<forall>p\<in>set ps. fst p < rows \<and> snd p < cols" "fst x < rows" "snd x < cols"
    by simp_all
  from snoc.IH [OF l1 snoc.prems(2) d(1) b(1)]
  have sh1: "has_shape rows cols w1"
    and r1: "r1 = skip_floats (length (filter ?nf ps)) r"
    and e1: "\<forall>j<length ps. ?nf (ps ! j) \<longrightarrow>
            w1 ! fst (ps ! j) ! snd (ps ! j) =
              0.1 + (0.5 - 0.1) * raw_floats r (length (filter ?nf (take j ps)))"
    by simp_all
  obtain i h where x: "x = (i, h)" by (cases x)
  from st have st': "extract_weight a cf cs (i, h) (w1, r1) = Inr (w', r')" by (simp add: x)
  note step = extract_weight_step [OF st']
  from step obtain v where v: "w' = set_entry w1 i h v" by blast
  have sh: "has_shape rows cols w'" unfolding v by (rule set_entry_shape [OF sh1])
  have r': "r' = skip_floats (length (filter ?nf (ps @ [x]))) r"
  proof (cases "?nf x")
    case True
    with step x have "r' = skip_floats 1 r1" by simp
    then show ?thesis using True by (simp add: r1 skip_floats_skip)
  next
    case False
    with step x have "r' = r1" by simp
    then show ?thesis using False by (simp add: r1)
  qed
  have e: "w' ! fst ((ps @ [x]) ! j) ! snd ((ps @ [x]) ! j) =
              0.1 + (0.5 - 0.1) * raw_floats r (length (filter ?nf (take j (ps @ [x]))))"
    if j: "j < length (ps @ [x])" and nf: "?nf ((ps @ [x]) ! j)" for j
  proof (cases "j < length ps")
    case True
    then have nth: "(ps @ [x]) ! j = ps ! j" by (simp add: nth_append)
    from True have "ps ! j \<in> set ps" by simp
    with d(2) have ne: "ps ! j \<noteq> x" by auto
    then have "(fst (ps ! j), snd (ps ! j)) \<noteq> (i, h)" by (simp add: x)
    then have "w' ! fst (ps ! j) ! snd (ps ! j) = w1 ! fst (ps ! j) ! snd (ps ! j)"
      unfolding v by (rule set_entry_other)
    also have "\<dots> = 0.1 + (0.5 - 0.1) * raw_floats r (length (filter ?nf (take j ps)))"
      using e1 True nf nth by simp
    finally show ?thesis using True by (simp add: nth)
  next
    case False
    with j have jl: "j = length ps" by simp
    then have nth: "(ps @ [x]) ! j = x" by simp
    with nf step x have "w' = set_entry w1 i h (0.1 + (0.5 - 0.1) * raw_floats r1 0)" by simp
    then have "w' ! i ! h = 0.1 + (0.5 - 0.1) * raw_floats r1 0"
      using set_entry_same [OF sh1, of i h] b(2,3) x by simp
    then show ?thesis by (simp add: nth x jl r1 raw_floats_skip)
  qed
  from sh r' e show ?case by blast
qed

lemma product_index:
  assumes "i < rows" "h < cols"
  shows "i * cols + h < length (List.product [0..<rows] [0..<cols]) \<and>
         List.product [0..<rows] [0..<cols] ! (i * cols + h) = (i, h)"
proof -
  have "i * cols + h < i * cols + cols" using assms by simp
  also have "\<dots> = Suc i * cols" by simp
  also have "\<dots> \<le> rows * cols" using assms(1) by (intro mult_le_mono1) simp
  finally have lt: "i * cols + h < rows * cols" .
  then have "List.product [0..<rows] [0..<cols] ! (i * cols + h) =
      ([0..<rows] ! ((i * cols + h) div cols), [0..<cols] ! ((i * cols + h) mod cols))"
    by (simp add: product_nth)
  moreover have "(i * cols + h) div cols = i" "(i * cols + h) mod cols = h"
    using assms by simp_all
  ultimately show ?thesis using lt assms by simp
qed

lemma extract_weight_loop_draws:
  assumes loop: "for_loop (extract_weight a cf cs) (List.product [0..<rows] [0..<cols]) (w, r)
                   = Inr (w', r')"
    and sh: "has_shape rows cols w"
  shows "r' = skip_floats (fallback_count a cf cs rows cols) r \<and>
         (\<forall>i<rows. \<forall>h<cols. needs_fallback a cf cs (i, h) \<longrightarrow>
            w' ! i ! h = 0.1 + (0.5 - 0.1) * raw_floats r (fallbacks_before a cf cs rows cols i h))"
proof -
  let ?ps = "List.product [0..<rows] [0..<cols]"
  have d: "distinct ?ps" by (simp add: distinct_product)
  have b: "\<forall>p\<in>set ?ps. fst p < rows \<and> snd p < cols" by auto
  note t = extract_weight_draws [OF loop sh d b]
  from t have r': "r' = skip_floats (fallback_count a cf cs rows cols) r"
    by (simp add: fallback_count_def)
  have e: "w' ! i ! h = 0.1 + (0.5 - 0.1) * raw_floats r (fallbacks_before a cf cs rows cols i h)"
    if ih: "i < rows" "h < cols" and nf: "needs_fallback a cf cs (i, h)" for i h
  proof -
    from product_index [OF ih] have lt: "i * cols + h < length ?ps"
      and nth: "?ps ! (i * cols + h) = (i, h)" by simp_all
    from t [THEN conjunct2, THEN conjunct2, rule_format, OF lt] nf nth
    show ?thesis by (simp add: fallbacks_before_def)
  qed
  from r' e show ?thesis by blast
qed

lemma extract_weight_total:
  assumes "has_shape rows cols cf" "has_shape rows cols cs"
  shows "\<exists>st'. for_loop (extract_weight a cf cs) (List.product [0..<rows] [0..<cols]) st = Inr st'"
proof (rule for_loop_total)
  fix x s assume "x \<in> set (List.product [0..<rows] [0..<cols])"
  then obtain i h where x: "x = (i, h)" "i < rows" "h < cols" by auto
  from assms x have "i < length cf" "h < length (cf ! i)" "i < length cs" "h < length (cs ! i)"
    by (simp_all add: has_shape_def)
  then show "\<exists>s'. extract_weight a cf cs x s = Inr s'"
    by (cases s) (simp add: x extract_weight_def get_name_def Let_def split: option.splits prod.splits)
qed

lemma weight_ok_fallback:
  "weight_ok R a cf cs (i, h) v \<Longrightarrow> needs_fallback a cf cs (i, h) \<Longrightarrow> R v"
  by (auto simp: weight_ok_def needs_fallback_def split: option.splits)

lemma extract_network_state_draws:
  assumes "extract_network_state num_inputs num_hidden num_outputs (Some a) cf1 cs1 cf2 cs2 r
             = Inr (ih_weights, ho_weights, r')"
  shows "r' = skip_floats (fallback_count a cf1 cs1 num_inputs num_hidden +
                           fallback_count a cf2 cs2 num_hidden num_outputs) r \<and>
         (\<forall>i<num_inputs. \<forall>h<num_hidden. needs_fallback a cf1 cs1 (i, h) \<longrightarrow>
            ih_weights ! i ! h = 0.1 + (0.5 - 0.1) *
              raw_floats r (fallbacks_before a cf1 cs1 num_inputs num_hidden i h)) \<and>
         (\<forall>h<num_hidden. \<forall>k<num_outputs. needs_fallback a cf2 cs2 (h, k) \<longrightarrow>
            ho_weights ! h ! k = 0.1 + (0.5 - 0.1) *
              raw_floats r (fallback_count a cf1 cs1 num_inputs num_hidden +
                            fallbacks_before a cf2 cs2 num_hidden num_outputs h k))"
proof -
  from assms obtain r1 where
    l1: "for_loop (extract_weight a cf1 cs1) (List.product [0..<num_inputs] [0..<num_hidden])
       (zeros num_inputs num_hidden, r) = Inr (ih_weights, r1)"
    and l2: "for_loop (extract_weight a cf2 cs2) (List.product [0..<num_hidden] [0..<num_outputs])
       (zeros num_hidden num_outputs, r1) = Inr (ho_weights, r')"
    by (rule extract_network_state_unfold)
  note t1 = extract_weight_loop_draws [OF l1 zeros_shape]
  note t2 = extract_weight_loop_draws [OF l2 zeros_shape]
  from t1 have r1: "r1 = skip_floats (fallback_count a cf1 cs1 num_inputs num_hidden) r"
    by (rule conjunct1)
  from t2 have "r' = skip_floats (fallback_count a cf2 cs2 num_hidden num_outputs) r1"
    by (rule conjunct1)
  then have r': "r' = skip_floats (fallback_count a cf1 cs1 num_inputs num_hidden +
                           fallback_count a cf2 cs2 num_hidden num_outputs) r"
    by (simp add: r1 skip_floats_skip)
  from t1 have e1: "\<forall>i<num_inputs. \<forall>h<num_hidden. needs_fallback a cf1 cs1 (i, h) \<longrightarrow>
            ih_weights ! i ! h = 0.1 + (0.5 - 0.1) *
              raw_floats r (fallbacks_before a cf1 cs1 num_inputs num_hidden i h)"
    by (rule conjunct2)
  from t2 have "\<forall>h<num_hidden. \<forall>k<num_outputs. needs_fallback a cf2 cs2 (h, k) \<longrightarrow>
            ho_weights ! h ! k = 0.1 + (0.5 - 0.1) *
              raw_floats r1 (fallbacks_before a cf2 cs2 num_hidden num_outputs h k)"
    by (rule conjunct2)
  then have e2: "\<forall>h<num_hidden. \<forall>k<num_outputs. needs_fallback a cf2 cs2 (h, k) \<longrightarrow>
            ho_weights ! h ! k = 0.1 + (0.5 - 0.1) *
              raw_floats r (fallback_count a cf1 cs1 num_inputs num_hidden +
                            fallbacks_before a cf2 cs2 num_hidden num_outputs h k)"
    by (simp add: r1 raw_floats_skip ac_simps)
  from r' e1 e2 show ?thesis by (intro conjI)
qed

lemma extract_network_state_returns:
  assumes "has_shape num_inputs num_hidden cf1" "has_shape num_inputs num_hidden cs1"
    and "has_shape num_hidden num_outputs cf2" "has_shape num_hidden num_outputs cs2"
  shows "\<exists>ih_weights ho_weights r'.
           extract_network_state num_inputs num_hidden num_outputs (Some a) cf1 cs1 cf2 cs2 r
             = Inr (ih_weights, ho_weights, r')"
proof -
  from extract_weight_total [OF assms(1,2)] obtain w1 r1 where
    l1: "for_loop (extract_weight a cf1 cs1) (List.product [0..<num_inputs] [0..<num_hidden])
       (zeros num_inputs num_hidden, r) = Inr (w1, r1)"
    by (metis surj_pair)
  from extract_weight_total [OF assms(3,4)] obtain w2 r2 where
    l2: "for_loop (extract_weight a cf2 cs2) (List.product [0..<num_hidden] [0..<num_outputs])
       (zeros num_hidden num_outputs, r1) = Inr (w2, r2)"
    by (metis surj_pair)
  from l1 l2 have "extract_network_state num_inputs num_hidden num_outputs (Some a)
      cf1 cs1 cf2 cs2 r = Inr (w1, w2, r2)"
    by (simp add: extract_network_state_def)
  then show ?thesis by blast
qed

lemma extract_network_state_failure_draws:
  "\<exists>ih_weights ho_weights.
     extract_network_state num_inputs num_hidden num_outputs None cf1 cs1 cf2 cs2 r
       = Inr (ih_weights, ho_weights,
              skip_floats (num_inputs * num_hidden + num_hidden * num_outputs) r) \<and>
     (\<forall>i<num_inputs. \<forall>h<num_hidden.
        ih_weights ! i ! h = 0.1 + (0.5 - 0.1) * raw_floats r (i * num_hidden + h)) \<and>
     (\<forall>h<num_hidden. \<forall>k<num_outputs.
        ho_weights ! h ! k = 0.1 + (0.5 - 0.1) *
          raw_floats r (num_inputs * num_hidden + (h * num_outputs + k)))"
proof -
  obtain m1 r1 where m1: "uniform_matrix 0.1 0.5 num_inputs num_hidden r = (m1, r1)"
    by (cases "uniform_matrix 0.1 0.5 num_inputs num_hidden r")
  obtain m2 r2 where m2: "uniform_matrix 0.1 0.5 num_hidden num_outputs r1 = (m2, r2)"
    by (cases "uniform_matrix 0.1 0.5 num_hidden num_outputs r1")
  note t1 = uniform_matrix_nth [OF m1]
  note t2 = uniform_matrix_nth [OF m2]
  from t1 have r1: "r1 = skip_floats (num_inputs * num_hidden) r" by (rule conjunct2)
  from t2 have "r2 = skip_floats (num_hidden * num_outputs) r1" by (rule conjunct2)
  then have r2: "r2 = skip_floats (num_inputs * num_hidden + num_hidden * num_outputs) r"
    by (simp add: r1 skip_floats_skip)
  from t1 have e1: "\<forall>i<num_inputs. \<forall>h<num_hidden.
        m1 ! i ! h = 0.1 + (0.5 - 0.1) * raw_floats r (i * num_hidden + h)"
    by (rule conjunct1)
  from t2 have "\<forall>h<num_hidden. \<forall>k<num_outputs.
        m2 ! h ! k = 0.1 + (0.5 - 0.1) * raw_floats r1 (h * num_outputs + k)"
    by (rule conjunct1)
  then have e2: "\<forall>h<num_hidden. \<forall>k<num_outputs.
        m2 ! h ! k = 0.1 + (0.5 - 0.1) *
          raw_floats r (num_inputs * num_hidden + (h * num_outputs + k))"
    by (simp add: r1 raw_floats_skip ac_simps)
  have "extract_network_state num_inputs num_hidden num_outputs None cf1 cs1 cf2 cs2 r
          = Inr (m1, m2, skip_floats (num_inputs * num_hidden + num_hidden * num_outputs) r)"
    using m1 m2 r2 by (simp add: extract_network_state_def)
  with e1 e2 show ?thesis by (intro exI conjI)
qed

lemma lower_examples_2:
  "lower ''ih_syn_0_1_fast'' = ''ih_syn_0_1_fast''"
  "lower ''ih_syn_0_1_slow'' = ''ih_syn_0_1_slow''"
  "lower ''ho_syn_1_0_fast'' = ''ho_syn_1_0_fast''"
  "lower ''ho_syn_1_0_slow'' = ''ho_syn_1_0_slow''"
  by (simp_all add: lower_def lower_char_def)

lemma unit_draws_harmonic: "unit_draws \<lparr>raw_ints = \<lambda>n. 0, raw_floats = \<lambda>n. 1 / (real n + 2)\<rparr>"
  by (simp add: unit_draws_def)

lemma extract_failure_example_2:
  "extract_network_state 1 2 1 None
     [[''ih_syn_0_0_fast'', ''ih_syn_0_1_fast'']] [[''ih_syn_0_0_slow'', ''ih_syn_0_1_slow'']]
     [[''ho_syn_0_0_fast''], [''ho_syn_1_0_fast'']] [[''ho_syn_0_0_slow''], [''ho_syn_1_0_slow'']]
     \<lparr>raw_ints = \<lambda>n. 0, raw_floats = \<lambda>n. 1 / (real n + 2)\<rparr>
   = Inr ([[3 / 10, 7 / 30]], [[1 / 5], [9 / 50]],
          skip_floats 4 \<lparr>raw_ints = \<lambda>n. 0, raw_floats = \<lambda>n. 1 / (real n + 2)\<rparr>)"
  by (simp add: extract_network_state_def random_uniform_def next_float_def zeros_def
      numeral_eq_Suc skip_floats_def)

lemma extract_partial_example_2:
  "extract_network_state 1 2 1
     (Some \<lparr>time = [0, 1],
            nodes = [''ih_syn_0_0_fast'' \<mapsto> [1 / 10, 2 / 10],
                     ''ih_syn_0_0_slow'' \<mapsto> [3 / 10, 4 / 10],
                     ''ho_syn_0_0_fast'' \<mapsto> [1 / 10, 1 / 5],
                     ''ho_syn_1_0_fast'' \<mapsto> [1 / 10, 1 / 5],
                     ''ho_syn_1_0_slow'' \<mapsto> [0, 1 / 10]]\<rparr>)
     [[''ih_syn_0_0_fast'', ''ih_syn_0_1_fast'']] [[''ih_syn_0_0_slow'', ''ih_syn_0_1_slow'']]
     [[''ho_syn_0_0_fast''], [''ho_syn_1_0_fast'']] [[''ho_syn_0_0_slow''], [''ho_syn_1_0_slow'']]
     \<lparr>raw_ints = \<lambda>n. 0, raw_floats = \<lambda>n. 1 / (real n + 2)\<rparr>
   = Inr ([[3 / 5, 3 / 10]], [[7 / 30], [3 / 10]],
          skip_floats 2 \<lparr>raw_ints = \<lambda>n. 0, raw_floats = \<lambda>n. 1 / (real n + 2)\<rparr>)"
  by (simp add: extract_network_state_def extract_weight_def get_name_def random_weight_def
      random_uniform_def next_float_def zeros_def set_entry_def lower_examples lower_examples_2
      skip_floats_def upt_rec numeral_2_eq_2)

text \<open>
  C6. On the failure marker the extraction returns two matrices of the declared shapes,
  filled in row-major order from consecutive raw samples \<open>u\<close> of the random source as
  \<open>0.1 + (0.5 - 0.1) * u\<close>, the input-to-hidden matrix first, and the source has advanced
  by one sample per entry; with raw samples in the unit interval every entry lies between
  0.1 and 0.5. On a present result the extraction returns when the four tables of node
  names have the declared shapes. Whenever it returns, the matrices have the declared
  shapes; the entry of a synapse one of whose nodes is missing, or one of whose traces is
  empty, is \<open>0.1 + (0.5 - 0.1) * u\<close> for the raw sample \<open>u\<close> whose index is the number of
  such synapses the two loops have met before, and so lies between 0.1 and 0.5; the source
  has advanced by one sample per such synapse; and the entry of every synapse whose two
  nodes are present with non-empty traces is the sum of their final values, whatever is
  missing elsewhere.
\<close>

theorem extract_network_state_fallback:
  assumes "unit_draws r"
  shows "(\<exists>ih_weights ho_weights.
            extract_network_state num_inputs num_hidden num_outputs None cf1 cs1 cf2 cs2 r
              = Inr (ih_weights, ho_weights,
                     skip_floats (num_inputs * num_hidden + num_hidden * num_outputs) r) \<and>
            has_shape num_inputs num_hidden ih_weights \<and>
            has_shape num_hidden num_outputs ho_weights \<and>
            (\<forall>row\<in>set ih_weights. \<forall>x\<in>set row. 0.1 \<le> x \<and> x \<le> 0.5) \<and>
            (\<forall>row\<in>set ho_weights. \<forall>x\<in>set row. 0.1 \<le> x \<and> x \<le> 0.5) \<and>
            (\<forall>i<num_inputs. \<forall>h<num_hidden.
               ih_weights ! i ! h = 0.1 + (0.5 - 0.1) * raw_floats r (i * num_hidden + h)) \<and>
            (\<forall>h<num_hidden. \<forall>k<num_outputs.
               ho_weights ! h ! k = 0.1 + (0.5 - 0.1) *
                 raw_floats r (num_inputs * num_hidden + (h * num_outputs + k)))) \<and>
         (\<forall>a. has_shape num_inputs num_hidden cf1 \<and> has_shape num_inputs num_hidden cs1 \<and>
              has_shape num_hidden num_outputs cf2 \<and> has_shape num_hidden num_outputs cs2 \<longrightarrow>
              (\<exists>ih_weights ho_weights r'.
                 extract_network_state num_inputs num_hidden num_outputs (Some a)
                   cf1 cs1 cf2 cs2 r = Inr (ih_weights, ho_weights, r'))) \<and>
         (\<forall>a ih_weights ho_weights r'.
            extract_network_state num_inputs num_hidden num_outputs (Some a) cf1 cs1 cf2 cs2 r
              = Inr (ih_weights, ho_weights, r') \<longrightarrow>
            has_shape num_inputs num_hidden ih_weights \<and>
            has_shape num_hidden num_outputs ho_weights \<and>
            r' = skip_floats (fallback_count a cf1 cs1 num_inputs num_hidden +
                              fallback_count a cf2 cs2 num_hidden num_outputs) r \<and>
            (\<forall>i<num_inputs. \<forall>h<num_hidden.
               (needs_fallback a cf1 cs1 (i, h) \<longrightarrow>
                  ih_weights ! i ! h = 0.1 + (0.5 - 0.1) * raw_floats r (fallbacks_before a cf1 cs1 num_inputs num_hidden i h) \<and>
                  0.1 \<le> ih_weights ! i ! h \<and> ih_weights ! i ! h \<le> 0.5) \<and>
               (nodes a (lower (cf1 ! i ! h)) = None \<or> nodes a (lower (cs1 ! i ! h)) = None \<longrightarrow>
                  0.1 \<le> ih_weights ! i ! h \<and> ih_weights ! i ! h \<le> 0.5) \<and>
               (\<forall>v_fast v_slow.
                  nodes a (lower (cf1 ! i ! h)) = Some v_fast \<and>
                  nodes a (lower (cs1 ! i ! h)) = Some v_slow \<and> v_fast \<noteq> [] \<and> v_slow \<noteq> [] \<longrightarrow>
                  ih_weights ! i ! h = last v_fast + last v_slow)) \<and>
            (\<forall>h<num_hidden. \<forall>k<num_outputs.
               (needs_fallback a cf2 cs2 (h, k) \<longrightarrow>
                  ho_weights ! h ! k = 0.1 + (0.5 - 0.1) * raw_floats r (fallback_count a cf1 cs1 num_inputs num_hidden +
                    fallbacks_before a cf2 cs2 num_hidden num_outputs h k) \<and>
                  0.1 \<le> ho_weights ! h ! k \<and> ho_weights ! h ! k \<le> 0.5) \<and>
               (nodes a (lower (cf2 ! h ! k)) = None \<or> nodes a (lower (cs2 ! h ! k)) = None \<longrightarrow>
                  0.1 \<le> ho_weights ! h ! k \<and> ho_weights ! h ! k \<le> 0.5) \<and>
               (\<forall>v_fast v_slow.
                  nodes a (lower (cf2 ! h ! k)) = Some v_fast \<and>
                  nodes a (lower (cs2 ! h ! k)) = Some v_slow \<and> v_fast \<noteq> [] \<and> v_slow \<noteq> [] \<longrightarrow>
                  ho_weights ! h ! k = last v_fast + last v_slow)))"
proof (intro conjI)
  obtain m1 r1 where m1: "uniform_matrix 0.1 0.5 num_inputs num_hidden r = (m1, r1)"
    by (cases "uniform_matrix 0.1 0.5 num_inputs num_hidden r")
  obtain m2 r2 where m2: "uniform_matrix 0.1 0.5 num_hidden num_outputs r1 = (m2, r2)"
    by (cases "uniform_matrix 0.1 0.5 num_hidden num_outputs r1")
  from uniform_matrix_range [OF assms m1]
  have p1: "has_shape num_inputs num_hidden m1" "\<forall>row\<in>set m1. \<forall>x\<in>set row. 0.1 \<le> x \<and> x \<le> 0.5"
    and d1: "unit_draws r1" by auto
  from uniform_matrix_range [OF d1 m2]
  have p2: "has_shape num_hidden num_outputs m2" "\<forall>row\<in>set m2. \<forall>x\<in>set row. 0.1 \<le> x \<and> x \<le> 0.5"
    by auto
  have ex: "extract_network_state num_inputs num_hidden num_outputs None cf1 cs1 cf2 cs2 r
          = Inr (m1, m2, r2)"
    using m1 m2 by (simp add: extract_network_state_def)
  from extract_network_state_failure_draws [of num_inputs num_hidden num_outputs cf1 cs1 cf2 cs2 r]
  obtain w1 w2 where
    ex': "extract_network_state num_inputs num_hidden num_outputs None cf1 cs1 cf2 cs2 r
       = Inr (w1, w2, skip_floats (num_inputs * num_hidden + num_hidden * num_outputs) r)"
    and q1: "\<forall>i<num_inputs. \<forall>h<num_hidden.
        w1 ! i ! h = 0.1 + (0.5 - 0.1) * raw_floats r (i * num_hidden + h)"
    and q2: "\<forall>h<num_hidden. \<forall>k<num_outputs.
        w2 ! h ! k = 0.1 + (0.5 - 0.1) *
          raw_floats r (num_inputs * num_hidden + (h * num_outputs + k))"
    by (elim exE conjE)
  from ex ex' have eq: "w1 = m1" "w2 = m2" by simp_all
  from ex' p1 p2 q1 q2 show "\<exists>ih_weights ho_weights.
            extract_network_state num_inputs num_hidden num_outputs None cf1 cs1 cf2 cs2 r
              = Inr (ih_weights, ho_weights,
                     skip_floats (num_inputs * num_hidden + num_hidden * num_outputs) r) \<and>
            has_shape num_inputs num_hidden ih_weights \<and>
            has_shape num_hidden num_outputs ho_weights \<and>
            (\<forall>row\<in>set ih_weights. \<forall>x\<in>set row. 0.1 \<le> x \<and> x \<le> 0.5) \<and>
            (\<forall>row\<in>set ho_weights. \<forall>x\<in>set row. 0.1 \<le> x \<and> x \<le> 0.5) \<and>
            (\<forall>i<num_inputs. \<forall>h<num_hidden.
               ih_weights ! i ! h = 0.1 + (0.5 - 0.1) * raw_floats r (i * num_hidden + h)) \<and>
            (\<forall>h<num_hidden. \<forall>k<num_outputs.
               ho_weights ! h ! k = 0.1 + (0.5 - 0.1) *
                 raw_floats r (num_inputs * num_hidden + (h * num_outputs + k)))"
    unfolding eq by (intro exI conjI)
next
  show "\<forall>a. has_shape num_inputs num_hidden cf1 \<and> has_shape num_inputs num_hidden cs1 \<and>
              has_shape num_hidden num_outputs cf2 \<and> has_shape num_hidden num_outputs cs2 \<longrightarrow>
              (\<exists>ih_weights ho_weights r'.
                 extract_network_state num_inputs num_hidden num_outputs (Some a)
                   cf1 cs1 cf2 cs2 r = Inr (ih_weights, ho_weights, r'))"
  proof (intro allI impI)
    fix a
    assume "has_shape num_inputs num_hidden cf1 \<and> has_shape num_inputs num_hidden cs1 \<and>
              has_shape num_hidden num_outputs cf2 \<and> has_shape num_hidden num_outputs cs2"
    then have sh: "has_shape num_inputs num_hidden cf1" "has_shape num_inputs num_hidden cs1"
      "has_shape num_hidden num_outputs cf2" "has_shape num_hidden num_outputs cs2"
      by simp_all
    show "\<exists>ih_weights ho_weights r'.
                 extract_network_state num_inputs num_hidden num_outputs (Some a)
                   cf1 cs1 cf2 cs2 r = Inr (ih_weights, ho_weights, r')"
      by (rule extract_network_state_returns [OF sh])
  qed
next
  show "\<forall>a ih_weights ho_weights r'.
            extract_network_state num_inputs num_hidden num_outputs (Some a) cf1 cs1 cf2 cs2 r
              = Inr (ih_weights, ho_weights, r') \<longrightarrow>
            has_shape num_inputs num_hidden ih_weights \<and>
            has_shape num_hidden num_outputs ho_weights \<and>
            r' = skip_floats (fallback_count a cf1 cs1 num_inputs num_hidden +
                              fallback_count a cf2 cs2 num_hidden num_outputs) r \<and>
            (\<forall>i<num_inputs. \<forall>h<num_hidden.
               (needs_fallback a cf1 cs1 (i, h) \<longrightarrow>
                  ih_weights ! i ! h = 0.1 + (0.5 - 0.1) * raw_floats r (fallbacks_before a cf1 cs1 num_inputs num_hidden i h) \<and>
                  0.1 \<le> ih_weights ! i ! h \<and> ih_weights ! i ! h \<le> 0.5) \<and>
               (nodes a (lower (cf1 ! i ! h)) = None \<or> nodes a (lower (cs1 ! i ! h)) = None \<longrightarrow>
                  0.1 \<le> ih_weights ! i ! h \<and> ih_weights ! i ! h \<le> 0.5) \<and>
               (\<forall>v_fast v_slow.
                  nodes a (lower (cf1 ! i ! h)) = Some v_fast \<and>
                  nodes a (lower (cs1 ! i ! h)) = Some v_slow \<and> v_fast \<noteq> [] \<and> v_slow \<noteq> [] \<longrightarrow>
                  ih_weights ! i ! h = last v_fast + last v_slow)) \<and>
            (\<forall>h<num_hidden. \<forall>k<num_outputs.
               (needs_fallback a cf2 cs2 (h, k) \<longrightarrow>
                  ho_weights ! h ! k = 0.1 + (0.5 - 0.1) * raw_floats r (fallback_count a cf1 cs1 num_inputs num_hidden +
                    fallbacks_before a cf2 cs2 num_hidden num_outputs h k) \<and>
                  0.1 \<le> ho_weights ! h ! k \<and> ho_weights ! h ! k \<le> 0.5) \<and>
               (nodes a (lower (cf2 ! h ! k)) = None \<or> nodes a (lower (cs2 ! h ! k)) = None \<longrightarrow>
                  0.1 \<le> ho_weights ! h ! k \<and> ho_weights ! h ! k \<le> 0.5) \<and>
               (\<forall>v_fast v_slow.
                  nodes a (lower (cf2 ! h ! k)) = Some v_fast \<and>
                  nodes a (lower (cs2 ! h ! k)) = Some v_slow \<and> v_fast \<noteq> [] \<and> v_slow \<noteq> [] \<longrightarrow>
                  ho_weights ! h ! k = last v_fast + last v_slow))"
  proof (intro conjI allI impI)
    fix a ih_weights ho_weights r'
    assume ex: "extract_network_state num_inputs num_hidden num_outputs (Some a) cf1 cs1 cf2 cs2 r
                = Inr (ih_weights, ho_weights, r')"
    then obtain r1 where
      l1: "for_loop (extract_weight a cf1 cs1) (List.product [0..<num_inputs] [0..<num_hidden])
         (zeros num_inputs num_hidden, r) = Inr (ih_weights, r1)"
      and l2: "for_loop (extract_weight a cf2 cs2) (List.product [0..<num_hidden] [0..<num_outputs])
         (zeros num_hidden num_outputs, r1) = Inr (ho_weights, r')"
      by (rule extract_network_state_unfold)
    from extract_weight_loop [OF l1 zeros_shape assms random_weight_unit]
    have s1: "has_shape num_inputs num_hidden ih_weights" and d1: "unit_draws r1"
      and a1: "\<forall>i<num_inputs. \<forall>h<num_hidden.
                weight_ok (\<lambda>v. 0.1 \<le> v \<and> v \<le> 0.5) a cf1 cs1 (i, h) (ih_weights ! i ! h)"
      by simp_all
    from extract_weight_loop [OF l2 zeros_shape d1 random_weight_unit]
    have s2: "has_shape num_hidden num_outputs ho_weights"
      and a2: "\<forall>h<num_hidden. \<forall>k<num_outputs.
                weight_ok (\<lambda>v. 0.1 \<le> v \<and> v \<le> 0.5) a cf2 cs2 (h, k) (ho_weights ! h ! k)"
      by simp_all
    note dr = extract_network_state_draws [OF ex]
    note e1 = dr [THEN conjunct2, THEN conjunct1]
    note e2 = dr [THEN conjunct2, THEN conjunct2]
    show "has_shape num_inputs num_hidden ih_weights" by (rule s1)
    show "has_shape num_hidden num_outputs ho_weights" by (rule s2)
    show "r' = skip_floats (fallback_count a cf1 cs1 num_inputs num_hidden +
                              fallback_count a cf2 cs2 num_hidden num_outputs) r"
      by (rule dr [THEN conjunct1])
    {
      fix i h assume ih: "i < num_inputs" "h < num_hidden"
      with a1 have w: "weight_ok (\<lambda>v. 0.1 \<le> v \<and> v \<le> 0.5) a cf1 cs1 (i, h) (ih_weights ! i ! h)"
        by blast
      {
        assume nf: "needs_fallback a cf1 cs1 (i, h)"
        from e1 [rule_format, OF ih nf]
        show "ih_weights ! i ! h = 0.1 + (0.5 - 0.1) * raw_floats r (fallbacks_before a cf1 cs1 num_inputs num_hidden i h)" .
        from weight_ok_fallback [OF w nf]
        show "0.1 \<le> ih_weights ! i ! h" "ih_weights ! i ! h \<le> 0.5" by simp_all
      }
      {
        assume "nodes a (lower (cf1 ! i ! h)) = None \<or> nodes a (lower (cs1 ! i ! h)) = None"
        from weight_ok_missing [OF w this]
        show "0.1 \<le> ih_weights ! i ! h" "ih_weights ! i ! h \<le> 0.5" by simp_all
      }
      {
        fix v_fast v_slow
        assume "nodes a (lower (cf1 ! i ! h)) = Some v_fast \<and>
                nodes a (lower (cs1 ! i ! h)) = Some v_slow \<and> v_fast \<noteq> [] \<and> v_slow \<noteq> []"
        then show "ih_weights ! i ! h = last v_fast + last v_slow"
          using weight_ok_sum [OF w] by blast
      }
    }
    {
      fix h k assume ih: "h < num_hidden" "k < num_outputs"
      with a2 have w: "weight_ok (\<lambda>v. 0.1 \<le> v \<and> v \<le> 0.5) a cf2 cs2 (h, k) (ho_weights ! h ! k)"
        by blast
      {
        assume nf: "needs_fallback a cf2 cs2 (h, k)"
        from e2 [rule_format, OF ih nf]
        show "ho_weights ! h ! k = 0.1 + (0.5 - 0.1) * raw_floats r (fallback_count a cf1 cs1 num_inputs num_hidden +
                    fallbacks_before a cf2 cs2 num_hidden num_outputs h k)" .
        from weight_ok_fallback [OF w nf]
        show "0.1 \<le> ho_weights ! h ! k" "ho_weights ! h ! k \<le> 0.5" by simp_all
      }
      {
        assume "nodes a (lower (cf2 ! h ! k)) = None \<or> nodes a (lower (cs2 ! h ! k)) = None"
        from weight_ok_missing [OF w this]
        show "0.1 \<le> ho_weights ! h ! k" "ho_weights ! h ! k \<le> 0.5" by simp_all
      }
      {
        fix v_fast v_slow
        assume "nodes a (lower (cf2 ! h ! k)) = Some v_fast \<and>
                nodes a (lower (cs2 ! h ! k)) = Some v_slow \<and> v_fast \<noteq> [] \<and> v_slow \<noteq> []"
        then show "ho_weights ! h ! k = last v_fast + last v_slow"
          using weight_ok_sum [OF w] by blast
      }
    }
  qed
qed

theorem extract_network_state_fallback_witness:
  "unit_draws \<lparr>raw_ints = \<lambda>n. 0, raw_floats = \<lambda>n. 1 / (real n + 2)\<rparr> \<and>
   extract_network_state 1 2 1 None
     [[''ih_syn_0_0_fast'', ''ih_syn_0_1_fast'']] [[''ih_syn_0_0_slow'', ''ih_syn_0_1_slow'']]
     [[''ho_syn_0_0_fast''], [''ho_syn_1_0_fast'']] [[''ho_syn_0_0_slow''], [''ho_syn_1_0_slow'']]
     \<lparr>raw_ints = \<lambda>n. 0, raw_floats = \<lambda>n. 1 / (real n + 2)\<rparr>
   = Inr ([[3 / 10, 7 / 30]], [[1 / 5], [9 / 50]],
          skip_floats 4 \<lparr>raw_ints = \<lambda>n. 0, raw_floats = \<lambda>n. 1 / (real n + 2)\<rparr>) \<and>
   extract_network_state 1 2 1
     (Some \<lparr>time = [0, 1],
            nodes = [''ih_syn_0_0_fast'' \<mapsto> [1 / 10, 2 / 10],
                     ''ih_syn_0_0_slow'' \<mapsto> [3 / 10, 4 / 10],
                     ''ho_syn_0_0_fast'' \<mapsto> [1 / 10, 1 / 5],
                     ''ho_syn_1_0_fast'' \<mapsto> [1 / 10, 1 / 5],
                     ''ho_syn_1_0_slow'' \<mapsto> [0, 1 / 10]]\<rparr>)
     [[''ih_syn_0_0_fast'', ''ih_syn_0_1_fast'']] [[''ih_syn_0_0_slow'', ''ih_syn_0_1_slow'']]
     [[''ho_syn_0_0_fast''], [''ho_syn_1_0_fast'']] [[''ho_syn_0_0_slow''], [''ho_syn_1_0_slow'']]
     \<lparr>raw_ints = \<lambda>n. 0, raw_floats = \<lambda>n. 1 / (real n + 2)\<rparr>
   = Inr ([[3 / 5, 3 / 10]], [[7 / 30], [3 / 10]],
          skip_floats 2 \<lparr>raw_ints = \<lambda>n. 0, raw_floats = \<lambda>n. 1 / (real n + 2)\<rparr>) \<and>
   [[3 / 5, 3 / 10 :: real]] ! 0 ! 1 = 0.1 + (0.5 - 0.1) * raw_floats \<lparr>raw_ints = \<lambda>n. 0, raw_floats = \<lambda>n. 1 / (real n + 2)\<rparr> 0 \<and>
   [[7 / 30 :: real], [3 / 10]] ! 0 ! 0 = 0.1 + (0.5 - 0.1) * raw_floats \<lparr>raw_ints = \<lambda>n. 0, raw_floats = \<lambda>n. 1 / (real n + 2)\<rparr> 1 \<and>
   [[3 / 5 :: real, 3 / 10]] ! 0 ! 0 = last [1 / 10, 2 / 10] + last [3 / 10, 4 / 10] \<and>
   [[7 / 30 :: real], [3 / 10]] ! 1 ! 0 = last [1 / 10, 1 / 5] + last [0, 1 / 10]"
proof -
  let ?a = "\<lparr>time = [0, 1],
            nodes = [''ih_syn_0_0_fast'' \<mapsto> [1 / 10, 2 / 10],
                     ''ih_syn_0_0_slow'' \<mapsto> [3 / 10, 4 / 10],
                     ''ho_syn_0_0_fast'' \<mapsto> [1 / 10, 1 / 5],
                     ''ho_syn_1_0_fast'' \<mapsto> [1 / 10, 1 / 5],
                     ''ho_syn_1_0_slow'' \<mapsto> [0, 1 / 10]]\<rparr>"
  note t = extract_network_state_fallback [OF unit_draws_harmonic, of 1 2 1
             "[[''ih_syn_0_0_fast'', ''ih_syn_0_1_fast'']]"
             "[[''ih_syn_0_0_slow'', ''ih_syn_0_1_slow'']]"
             "[[''ho_syn_0_0_fast''], [''ho_syn_1_0_fast'']]"
             "[[''ho_syn_0_0_slow''], [''ho_syn_1_0_slow'']]"]
  note u = t [THEN conjunct2, THEN conjunct2, rule_format, OF extract_partial_example_2]
  note ih = u [THEN conjunct2, THEN conjunct2, THEN conjunct2, THEN conjunct1, rule_format]
  note ho = u [THEN conjunct2, THEN conjunct2, THEN conjunct2, THEN conjunct2, rule_format]
  have f1: "[[3 / 5, 3 / 10 :: real]] ! 0 ! 1 = 0.1 + (0.5 - 0.1) * raw_floats \<lparr>raw_ints = \<lambda>n. 0, raw_floats = \<lambda>n. 1 / (real n + 2)\<rparr> 0"
    using ih [of 0 1]
    by (simp add: needs_fallback_def fallbacks_before_def lower_examples lower_examples_2
        upt_rec numeral_2_eq_2)
  have f2: "[[7 / 30 :: real], [3 / 10]] ! 0 ! 0 = 0.1 + (0.5 - 0.1) * raw_floats \<lparr>raw_ints = \<lambda>n. 0, raw_floats = \<lambda>n. 1 / (real n + 2)\<rparr> 1"
    using ho [of 0 0]
    by (simp add: needs_fallback_def fallbacks_before_def fallback_count_def lower_examples
        lower_examples_2 upt_rec numeral_2_eq_2)
  have f3: "[[3 / 5 :: real, 3 / 10]] ! 0 ! 0 = last [1 / 10, 2 / 10] + last [3 / 10, 4 / 10]"
    using ih [of 0 0] by (simp add: lower_examples)
  have f4: "[[7 / 30 :: real], [3 / 10]] ! 1 ! 0 = last [1 / 10, 1 / 5] + last [0, 1 / 10]"
    using ho [of 1 0] by (simp add: lower_examples_2)
  from unit_draws_harmonic extract_failure_example_2 extract_partial_example_2 f1 f2 f3 f4
  show ?thesis by (intro conjI)
qed

text \<open>
  C7. For a present result, whenever the extraction returns, the weight of every synapse
  whose fast and slow storage nodes are both in the result, each with at least one
  sample, is the sum of the last values of the two traces. (A node with an empty trace
  has no final value; reading it raises and the entry takes the random fallback.)
\<close>

theorem extract_network_state_sum:
  assumes "extract_network_state num_inputs num_hidden num_outputs (Some a) cf1 cs1 cf2 cs2 r
             = Inr (ih_weights, ho_weights, r')"
  shows "(\<forall>i<num_inputs. \<forall>h<num_hidden. \<forall>v_fast v_slow.
            nodes a (lower (cf1 ! i ! h)) = Some v_fast \<and>
            nodes a (lower (cs1 ! i ! h)) = Some v_slow \<and> v_fast \<noteq> [] \<and> v_slow \<noteq> [] \<longrightarrow>
            ih_weights ! i ! h = last v_fast + last v_slow) \<and>
         (\<forall>h<num_hidden. \<forall>k<num_outputs. \<forall>v_fast v_slow.
            nodes a (lower (cf2 ! h ! k)) = Some v_fast \<and>
            nodes a (lower (cs2 ! h ! k)) = Some v_slow \<and> v_fast \<noteq> [] \<and> v_slow \<noteq> [] \<longrightarrow>
            ho_weights ! h ! k = last v_fast + last v_slow)"
proof -
  from assms obtain r1 where
    l1: "for_loop (extract_weight a cf1 cs1) (List.product [0..<num_inputs] [0..<num_hidden])
       (zeros num_inputs num_hidden, r) = Inr (ih_weights, r1)"
    and l2: "for_loop (extract_weight a cf2 cs2) (List.product [0..<num_hidden] [0..<num_outputs])
       (zeros num_hidden num_outputs, r1) = Inr (ho_weights, r')"
    by (rule extract_network_state_unfold)
  from extract_weight_loop [OF l1 zeros_shape, of "\<lambda>_. True" "\<lambda>_. True", OF TrueI random_weight_any]
  have a1: "\<forall>i<num_inputs. \<forall>h<num_hidden.
              weight_ok (\<lambda>_. True) a cf1 cs1 (i, h) (ih_weights ! i ! h)"
    by simp
  from extract_weight_loop [OF l2 zeros_shape, of "\<lambda>_. True" "\<lambda>_. True", OF TrueI random_weight_any]
  have a2: "\<forall>h<num_hidden. \<forall>k<num_outputs.
              weight_ok (\<lambda>_. True) a cf2 cs2 (h, k) (ho_weights ! h ! k)"
    by simp
  show ?thesis
  proof (intro conjI allI impI; elim conjE)
    fix i h v_fast v_slow
    assume "i < num_inputs" "h < num_hidden"
      and n: "nodes a (lower (cf1 ! i ! h)) = Some v_fast"
        "nodes a (lower (cs1 ! i ! h)) = Some v_slow" "v_fast \<noteq> []" "v_slow \<noteq> []"
    with a1 have "weight_ok (\<lambda>_. True) a cf1 cs1 (i, h) (ih_weights ! i ! h)" by blast
    from weight_ok_sum [OF this n] show "ih_weights ! i ! h = last v_fast + last v_slow" .
  next
    fix h k v_fast v_slow
    assume "h < num_hidden" "k < num_outputs"
      and n: "nodes a (lower (cf2 ! h ! k)) = Some v_fast"
        "nodes a (lower (cs2 ! h ! k)) = Some v_slow" "v_fast \<noteq> []" "v_slow \<noteq> []"
    with a2 have "weight_ok (\<lambda>_. True) a cf2 cs2 (h, k) (ho_weights ! h ! k)" by blast
    from weight_ok_sum [OF this n] show "ho_weights ! h ! k = last v_fast + last v_slow" .
  qed
qed

theorem extract_network_state_sum_witness:
  "extract_network_state 1 1 1
     (Some \<lparr>time = [0, 1],
            nodes = [''ih_syn_0_0_fast'' \<mapsto> [1 / 10, 2 / 10],
                     ''ih_syn_0_0_slow'' \<mapsto> [3 / 10, 4 / 10]]\<rparr>)
     [[''ih_syn_0_0_fast'']] [[''ih_syn_0_0_slow'']]
     [[''ho_syn_0_0_fast'']] [[''ho_syn_0_0_slow'']]
     \<lparr>raw_ints = \<lambda>n. 0, raw_floats = \<lambda>n. 1 / 2\<rparr>
   = Inr ([[3 / 5]], [[3 / 10]], \<lparr>raw_ints = \<lambda>n. 0, raw_floats = \<lambda>n. 1 / 2\<rparr>) \<and>
   [[3 / 5 :: real]] ! 0 ! 0 = last [1 / 10, 2 / 10] + last [3 / 10, 4 / 10]"
proof -
  note u = extract_network_state_sum [OF extract_partial_example]
  from u have "[[3 / 5 :: real]] ! 0 ! 0 = last [1 / 10, 2 / 10] + last [3 / 10, 4 / 10]"
    by (simp add: lower_examples)
  with extract_partial_example show ?thesis by (intro conjI)
qed

subsection \<open>Activity extraction\<close>

lemma fill_column_ok:
  assumes "has_shape rows ncols act" "i < ncols" "length trace = rows"
  shows "\<exists>act'. fill_column ncols act i trace = Inr act' \<and> has_shape rows ncols act' \<and>
           (\<forall>t<rows. act' ! t ! i = trace ! t) \<and>
           (\<forall>c. c \<noteq> i \<longrightarrow> (\<forall>t<rows. act' ! t ! c = act ! t ! c))"
proof -
  have len: "length act = rows" and w: "\<And>t. t < rows \<Longrightarrow> length (act ! t) = ncols"
    using assms(1) by (auto simp: has_shape_def)
  let ?act' = "map (\<lambda>(row, v). row[i := v]) (zip act trace)"
  have eq: "fill_column ncols act i trace = Inr ?act'"
    using assms(2,3) len by (simp add: fill_column_def)
  have sh: "has_shape rows ncols ?act'"
    using assms(1,3) by (auto simp: has_shape_def dest!: set_zip_leftD)
  have a: "\<forall>t<rows. ?act' ! t ! i = trace ! t"
    using len assms(2,3) w by simp
  have b: "\<forall>c. c \<noteq> i \<longrightarrow> (\<forall>t<rows. ?act' ! t ! c = act ! t ! c)"
    using len assms(3) by simp
  from eq sh a b show ?thesis by blast
qed

lemma fill_from_node_ok:
  assumes "has_shape rows ncols act" "i < ncols"
    and "\<forall>n v. nodes a n = Some v \<longrightarrow> length v = rows"
  shows "\<exists>act'. fill_from_node a ncols (i, name) act = Inr act' \<and> has_shape rows ncols act' \<and>
           (\<forall>t<rows. act' ! t ! i =
              (case nodes a (lower name) of None \<Rightarrow> act ! t ! i | Some v \<Rightarrow> v ! t)) \<and>
           (\<forall>c. c \<noteq> i \<longrightarrow> (\<forall>t<rows. act' ! t ! c = act ! t ! c))"
proof (cases "nodes a (lower name)")
  case None
  then show ?thesis using assms(1) by (simp add: fill_from_node_def)
next
  case (Some v)
  with assms(3) have "length v = rows" by blast
  from fill_column_ok [OF assms(1,2) this] Some show ?thesis
    by (simp add: fill_from_node_def)
qed

lemma fill_loop_ok:
  assumes "has_shape rows ncols act" "k + length names \<le> ncols"
    and "\<forall>n v. nodes a n = Some v \<longrightarrow> length v = rows"
  shows "\<exists>act'. for_loop (fill_from_node a ncols) (enumerate k names) act = Inr act' \<and>
           has_shape rows ncols act' \<and>
           (\<forall>j<length names. \<forall>t<rows. act' ! t ! (k + j) =
              (case nodes a (lower (names ! j)) of None \<Rightarrow> act ! t ! (k + j) | Some v \<Rightarrow> v ! t)) \<and>
           (\<forall>c. c < k \<or> k + length names \<le> c \<longrightarrow> (\<forall>t<rows. act' ! t ! c = act ! t ! c))"
  using assms(1,2)
proof (induction names arbitrary: k act)
  case Nil
  then show ?case by simp
next
  case (Cons name names)
  from Cons.prems(2) have k: "k < ncols" and rest: "Suc k + length names \<le> ncols" by simp_all
  from fill_from_node_ok [OF Cons.prems(1) k assms(3), of name]
  obtain act1 where s1: "fill_from_node a ncols (k, name) act = Inr act1"
    and sh1: "has_shape rows ncols act1"
    and v1: "\<forall>t<rows. act1 ! t ! k =
              (case nodes a (lower name) of None \<Rightarrow> act ! t ! k | Some v \<Rightarrow> v ! t)"
    and f1: "\<forall>c. c \<noteq> k \<longrightarrow> (\<forall>t<rows. act1 ! t ! c = act ! t ! c)"
    by blast
  from Cons.IH [OF sh1 rest]
  obtain act' where l: "for_loop (fill_from_node a ncols) (enumerate (Suc k) names) act1 = Inr act'"
    and sh: "has_shape rows ncols act'"
    and v: "\<forall>j<length names. \<forall>t<rows. act' ! t ! (Suc k + j) =
              (case nodes a (lower (names ! j)) of None \<Rightarrow> act1 ! t ! (Suc k + j) | Some v \<Rightarrow> v ! t)"
    and f: "\<forall>c. c < Suc k \<or> Suc k + length names \<le> c \<longrightarrow> (\<forall>t<rows. act' ! t ! c = act1 ! t ! c)"
    by blast
  have loop: "for_loop (fill_from_node a ncols) (enumerate k (name # names)) act = Inr act'"
    using s1 l by simp
  have vals: "\<forall>j<length (name # names). \<forall>t<rows. act' ! t ! (k + j) =
              (case nodes a (lower ((name # names) ! j)) of
                 None \<Rightarrow> act ! t ! (k + j) | Some v \<Rightarrow> v ! t)"
  proof (intro allI impI)
    fix j t assume j: "j < length (name # names)" and t: "t < rows"
    show "act' ! t ! (k + j) =
              (case nodes a (lower ((name # names) ! j)) of
                 None \<Rightarrow> act ! t ! (k + j) | Some v \<Rightarrow> v ! t)"
    proof (cases j)
      case 0
      have "act' ! t ! k = act1 ! t ! k" using f t by simp
      with v1 t show ?thesis unfolding 0 by (simp split: option.splits)
    next
      case (Suc j')
      with j have j': "j' < length names" by simp
      have "act1 ! t ! (Suc k + j') = act ! t ! (Suc k + j')" using f1 t by simp
      with v j' t Suc show ?thesis by (simp split: option.splits)
    qed
  qed
  have frame: "\<forall>c. c < k \<or> k + length (name # names) \<le> c \<longrightarrow>
                 (\<forall>t<rows. act' ! t ! c = act ! t ! c)"
  proof (intro allI impI)
    fix c t assume c: "c < k \<or> k + length (name # names) \<le> c" and t: "t < rows"
    then have "act' ! t ! c = act1 ! t ! c" using f by auto
    moreover have "act1 ! t ! c = act ! t ! c" using f1 c t by auto
    ultimately show "act' ! t ! c = act ! t ! c" by simp
  qed
  from loop sh vals frame show ?case by blast
qed


lemma zeros_nth: "t < rows \<Longrightarrow> c < cols \<Longrightarrow> zeros rows cols ! t ! c = 0"
  by (simp add: zeros_def)

lemma fill_layer_ok:
  assumes "length names \<le> ncols"
    and "\<forall>n v. nodes a n = Some v \<longrightarrow> length v = rows"
  shows "\<exists>act. for_loop (fill_from_node a ncols) (enumerate 0 names) (zeros rows ncols) = Inr act \<and>
           has_shape rows ncols act \<and>
           (\<forall>i<length names. \<forall>t<rows. act ! t ! i =
              (case nodes a (lower (names ! i)) of None \<Rightarrow> 0 | Some v \<Rightarrow> v ! t))"
proof -
  from fill_loop_ok [OF zeros_shape, of 0 names ncols a rows] assms
  obtain act where l: "for_loop (fill_from_node a ncols) (enumerate 0 names) (zeros rows ncols) = Inr act"
    and sh: "has_shape rows ncols act"
    and v: "\<forall>j<length names. \<forall>t<rows. act ! t ! (0 + j) =
              (case nodes a (lower (names ! j)) of
                 None \<Rightarrow> zeros rows ncols ! t ! (0 + j) | Some v \<Rightarrow> v ! t)"
    by auto
  have "\<forall>i<length names. \<forall>t<rows. act ! t ! i =
              (case nodes a (lower (names ! i)) of None \<Rightarrow> 0 | Some v \<Rightarrow> v ! t)"
  proof (intro allI impI)
    fix i t assume i: "i < length names" and t: "t < rows"
    with assms(1) have "zeros rows ncols ! t ! i = 0" by (simp add: zeros_nth)
    with v i t show "act ! t ! i =
              (case nodes a (lower (names ! i)) of None \<Rightarrow> 0 | Some v \<Rightarrow> v ! t)"
      by (simp split: option.splits)
  qed
  with l sh show ?thesis by blast
qed

text \<open>
  C10. For a present result whose traces all have one value per time sample, and node
  lists no longer than the layers, activity extraction returns; each activity array has
  one row per time sample and one column per declared neuron; the column of a node that
  is missing from the result is zero at every time sample, and the column of a node that
  is present is its trace, value by value.
\<close>

theorem extract_activity_over_time_traces:
  assumes "\<forall>n v. nodes a n = Some v \<longrightarrow> length v = length (time a)"
    and "length nodes_in \<le> num_inputs" "length nodes_hid \<le> num_hidden"
      "length nodes_out \<le> num_outputs"
  shows "\<exists>time_us input_activity hidden_activity output_activity.
           extract_activity_over_time num_inputs num_hidden num_outputs (Some a)
             nodes_in nodes_hid nodes_out r
             = Inr (time_us, input_activity, hidden_activity, output_activity, r) \<and>
           length time_us = length (time a) \<and>
           has_shape (length (time a)) num_inputs input_activity \<and>
           has_shape (length (time a)) num_hidden hidden_activity \<and>
           has_shape (length (time a)) num_outputs output_activity \<and>
           (\<forall>i<length nodes_in. \<forall>t<length (time a). input_activity ! t ! i =
              (case nodes a (lower (nodes_in ! i)) of None \<Rightarrow> 0 | Some v \<Rightarrow> v ! t)) \<and>
           (\<forall>i<length nodes_hid. \<forall>t<length (time a). hidden_activity ! t ! i =
              (case nodes a (lower (nodes_hid ! i)) of None \<Rightarrow> 0 | Some v \<Rightarrow> v ! t)) \<and>
           (\<forall>i<length nodes_out. \<forall>t<length (time a). output_activity ! t ! i =
              (case nodes a (lower (nodes_out ! i)) of None \<Rightarrow> 0 | Some v \<Rightarrow> v ! t))"
proof -
  let ?rows = "length (time a)"
  from fill_layer_ok [OF assms(2) assms(1)]
  obtain ia where l1: "for_loop (fill_from_node a num_inputs) (enumerate 0 nodes_in)
                         (zeros ?rows num_inputs) = Inr ia"
    and s1: "has_shape ?rows num_inputs ia"
    and v1: "\<forall>i<length nodes_in. \<forall>t<?rows. ia ! t ! i =
              (case nodes a (lower (nodes_in ! i)) of None \<Rightarrow> 0 | Some v \<Rightarrow> v ! t)"
    by blast
  from fill_layer_ok [OF assms(3) assms(1)]
  obtain ha where l2: "for_loop (fill_from_node a num_hidden) (enumerate 0 nodes_hid)
                         (zeros ?rows num_hidden) = Inr ha"
    and s2: "has_shape ?rows num_hidden ha"
    and v2: "\<forall>i<length nodes_hid. \<forall>t<?rows. ha ! t ! i =
              (case nodes a (lower (nodes_hid ! i)) of None \<Rightarrow> 0 | Some v \<Rightarrow> v ! t)"
    by blast
  from fill_layer_ok [OF assms(4) assms(1)]
  obtain oa where l3: "for_loop (fill_from_node a num_outputs) (enumerate 0 nodes_out)
                         (zeros ?rows num_outputs) = Inr oa"
    and s3: "has_shape ?rows num_outputs oa"
    and v3: "\<forall>i<length nodes_out. \<forall>t<?rows. oa ! t ! i =
              (case nodes a (lower (nodes_out ! i)) of None \<Rightarrow> 0 | Some v \<Rightarrow> v ! t)"
    by blast
  have eq: "extract_activity_over_time num_inputs num_hidden num_outputs (Some a)
             nodes_in nodes_hid nodes_out r
             = Inr (map (\<lambda>t. t * 10 ^ 6) (time a), ia, ha, oa, r)"
    using l1 l2 l3 by (simp add: extract_activity_over_time_def)
  show ?thesis
    apply (intro exI conjI)
           apply (rule eq)
          apply simp
         apply (rule s1)
        apply (rule s2)
       apply (rule s3)
      apply (rule v1)
     apply (rule v2)
    apply (rule v3)
    done
qed

lemma lower_layer_examples:
  "lower ''input_0'' = ''input_0''" "lower ''hidden_0'' = ''hidden_0''"
  "lower ''output_0'' = ''output_0''"
  by (simp_all add: lower_def lower_char_def)

lemma activity_example:
  "extract_activity_over_time 1 1 1
     (Some \<lparr>time = [0, 1], nodes = [''input_0'' \<mapsto> [1, 2], ''output_0'' \<mapsto> [3, 4]]\<rparr>)
     [''input_0''] [''hidden_0''] [''output_0'']
     \<lparr>raw_ints = \<lambda>n. 0, raw_floats = \<lambda>n. 1 / 2\<rparr>
   = Inr ([0, 10 ^ 6], [[1], [2]], [[0], [0]], [[3], [4]],
          \<lparr>raw_ints = \<lambda>n. 0, raw_floats = \<lambda>n. 1 / 2\<rparr>)"
  by (simp add: extract_activity_over_time_def fill_from_node_def fill_column_def zeros_def
      enumerate_eq_zip lower_layer_examples numeral_2_eq_2)

theorem extract_activity_over_time_traces_witness:
  "extract_activity_over_time 1 1 1
     (Some \<lparr>time = [0, 1], nodes = [''input_0'' \<mapsto> [1, 2], ''output_0'' \<mapsto> [3, 4]]\<rparr>)
     [''input_0''] [''hidden_0''] [''output_0'']
     \<lparr>raw_ints = \<lambda>n. 0, raw_floats = \<lambda>n. 1 / 2\<rparr>
   = Inr ([0, 10 ^ 6], [[1], [2]], [[0], [0]], [[3], [4]],
          \<lparr>raw_ints = \<lambda>n. 0, raw_floats = \<lambda>n. 1 / 2\<rparr>) \<and>
   [[1], [2 :: real]] ! 1 ! 0 = [1, 2] ! 1 \<and> [[0], [0 :: real]] ! 1 ! 0 = 0"
proof -
  have wf: "\<forall>n v. nodes \<lparr>time = [0, 1 :: real],
                 nodes = [''input_0'' \<mapsto> [1, 2], ''output_0'' \<mapsto> [3, 4]]\<rparr> n = Some v
              \<longrightarrow> length v = length (time \<lparr>time = [0, 1 :: real],
                 nodes = [''input_0'' \<mapsto> [1, 2], ''output_0'' \<mapsto> [3, 4]]\<rparr>)"
    by (auto split: if_splits)
  have l: "length [''input_0''] \<le> (1::nat)" "length [''hidden_0''] \<le> (1::nat)"
    "length [''output_0''] \<le> (1::nat)" by simp_all
  note t = extract_activity_over_time_traces [OF wf l,
             of "\<lparr>raw_ints = \<lambda>n. 0, raw_floats = \<lambda>n. 1 / 2\<rparr>"]
  from t have "[[1], [2 :: real]] ! 1 ! 0 = [1, 2] ! 1 \<and> [[0], [0 :: real]] ! 1 ! 0 = 0"
    unfolding activity_example by (simp add: lower_layer_examples)
  with activity_example show ?thesis by (intro conjI) (assumption | elim conjE)+
qed

subsection \<open>Performance evaluation\<close>

text \<open>
  C9. With fewer than two samples on the time axis the performance evaluator returns
  the accuracy 0 and marks every pattern incorrect, whatever the activity, the targets
  and the phase duration are; it returns a value and not an error.
\<close>

theorem calculate_performance_degenerate:
  "length time_us < 2 \<Longrightarrow>
     calculate_performance output_activity targets time_us phase_duration
       = Inr (0, replicate (length targets) False)"
  by (simp add: calculate_performance_def)

theorem calculate_performance_degenerate_witness:
  "length [0::real] < 2 \<and>
   calculate_performance [[1, 0]] [[1, 0], [0, 1]] [0] 20 = Inr (0, [False, False])"
  using calculate_performance_degenerate [of "[0::real]" "[[1, 0]]" "[[1, 0], [0, 1]]" 20]
  by (simp add: numeral_2_eq_2)

subsection \<open>The learning loop\<close>

lemma generate_simulation_signals_returns:
  assumes "\<forall>sample\<in>set (zip train_patterns train_targets).
             num_inputs \<le> length (fst sample) \<and> num_outputs \<le> length (snd sample)"
    and "num_inputs \<le> length nodes_in"
  shows "\<exists>c' Ts t_end. generate_simulation_signals num_inputs num_outputs c nodes_in
           train_patterns train_targets step = Inr (c', Ts, t_end)"
proof -
  from stimulus_waveforms_ok [OF assms(1), of step] obtain s where
    "stimulus_waveforms num_inputs num_outputs train_patterns train_targets step = Inr s"
    by blast
  then show ?thesis using assms(2)
    by (simp add: generate_simulation_signals_def Let_def)
qed

lemma learning_step_failure:
  assumes b: "build_circuit_for_learning num_inputs num_hidden num_outputs ih ho step r
                = Inr (net, r1)"
    and g: "generate_simulation_signals num_inputs num_outputs (circuit net) (input_nodes net)
              train_patterns train_targets step = Inr (c, Ts, end_time)"
    and f: "transient c time_step end_time = Inl e"
  shows "run_learning_step num_inputs num_hidden num_outputs ih ho transient
           train_patterns train_targets step (hist, r) = Inl AttributeError"
  using b g f by (simp add: run_learning_step_def run_simulation_def)


lemma sram_diag_shape:
  assumes "sram_diag_upto k d1 d2 m"
  shows "length m = d1 \<and> (\<forall>row\<in>set m. length row = d2)"
  using assms by (auto simp: sram_diag_upto_def in_set_conv_nth)

lemma run_learning_experiment_halts:
  assumes init: "initialize_network_architecture num_inputs num_hidden num_outputs r0
                   = Inr (ih, ho, r1)"
    and wf: "\<forall>sample\<in>set (zip train_patterns train_targets).
               num_inputs \<le> length (fst sample) \<and> num_outputs \<le> length (snd sample)"
    and n: "0 < LEARNING_STEPS"
    and fail: "\<forall>c dt e. \<exists>err. transient c dt e = Inl err"
  shows "run_learning_experiment num_inputs num_hidden num_outputs LEARNING_STEPS transient
           train_patterns train_targets r0 = Inl AttributeError"
proof -
  from initialize_network_architecture_diag [OF init]
  have "sram_diag_upto (min num_inputs num_hidden) num_inputs num_hidden ih"
    and "sram_diag_upto (min num_hidden num_outputs) num_hidden num_outputs ho"
    by simp_all
  then have sh: "length ih = num_inputs" "\<forall>row\<in>set ih. length row = num_hidden"
    "length ho = num_hidden" "\<forall>row\<in>set ho. length row = num_outputs"
    using sram_diag_shape by blast+
  define m1 where "m1 = uniform_matrix 0 0.2 num_inputs num_hidden r1"
  define m2 where "m2 = uniform_matrix 0 0.2 num_hidden num_outputs (snd m1)"
  define hist0 where "hist0 = \<lparr>train_accuracies = [], ih_weights_history = [fst m1],
                      ho_weights_history = [fst m2]\<rparr>"
  from build_circuit_returns [OF sh, of 0 "snd m2"] obtain net r' where
    b: "build_circuit_for_learning num_inputs num_hidden num_outputs ih ho 0 (snd m2)
          = Inr (net, r')" by blast
  from b have "input_nodes net = map input_node [0..<num_inputs]"
    by (rule build_circuit_unfold)
  then have "num_inputs \<le> length (input_nodes net)" by simp
  from generate_simulation_signals_returns [OF wf this, of "circuit net" 0]
  obtain c Ts end_time where
    g: "generate_simulation_signals num_inputs num_outputs (circuit net) (input_nodes net)
          train_patterns train_targets 0 = Inr (c, Ts, end_time)" by blast
  from fail obtain err where f: "transient c time_step end_time = Inl err" by blast
  have step0: "run_learning_step num_inputs num_hidden num_outputs ih ho transient
           train_patterns train_targets 0 (hist0, snd m2) = Inl AttributeError"
    by (rule learning_step_failure [where transient = transient, OF b g f])
  have "[0..<LEARNING_STEPS] = 0 # [Suc 0..<LEARNING_STEPS]"
    using n by (simp add: upt_conv_Cons)
  then have "for_loop (run_learning_step num_inputs num_hidden num_outputs ih ho transient
                         train_patterns train_targets) [0..<LEARNING_STEPS] (hist0, snd m2)
             = Inl AttributeError"
    using step0 by simp
  then show ?thesis
    using init
    by (simp add: run_learning_experiment_def Let_def split_beta m1_def m2_def hist0_def)
qed

text \<open>
  C1. A simulation failure halts the run. With two inputs, two hidden and two output
  neurons, one learning step, one training pattern and a solver that raises, the
  simulation driver returns the failure marker and the learning loop raises
  AttributeError where it reads \<open>analysis.nodes\<close>, before any weight or accuracy is
  appended: the run returns no history.
\<close>

theorem run_learning_experiment_simulation_failure:
  "run_learning_experiment 2 2 2 1 (\<lambda>c dt e. Inl ValueError) [[1, 0]] [[1, 0]]
     \<lparr>raw_ints = \<lambda>n. 0, raw_floats = \<lambda>n. 0\<rparr> = Inl AttributeError"
  by (rule run_learning_experiment_halts [OF init_example]) simp_all

end
